theory Spec2Isabelle
  imports Main "HOL-Library.Word" "HOL-Library.Sublist"
begin

section \<open>JavaScript strings\<close>

text \<open>
  A JavaScript string is a sequence of 16-bit code units; \<open>length\<close> and \<open>slice\<close> count
  code units. String literals of the source are written \<open>js ''...''\<close>.
\<close>

type_synonym code_unit = "16 word"
type_synonym jsstring = "code_unit list"

definition js :: "string \<Rightarrow> jsstring" where
  "js s = map (\<lambda>c. of_char c) s"

definition newline :: jsstring where
  "newline = [0xA]"

text \<open>
  The code units matched by \<open>\s\<close> in a regular expression and stripped by \<open>trim()\<close>:
  TAB, LF, VT, FF, CR, SPACE, NBSP, U+1680, U+2000..U+200A, U+2028, U+2029, U+202F,
  U+205F, U+3000 and U+FEFF.
\<close>

definition is_space :: "code_unit \<Rightarrow> bool" where
  "is_space c \<longleftrightarrow>
     c = 0x9 \<or> c = 0xA \<or> c = 0xB \<or> c = 0xC \<or> c = 0xD \<or> c = 0x20 \<or> c = 0xA0 \<or>
     c = 0x1680 \<or> (0x2000 \<le> c \<and> c \<le> 0x200A) \<or> c = 0x2028 \<or> c = 0x2029 \<or>
     c = 0x202F \<or> c = 0x205F \<or> c = 0x3000 \<or> c = 0xFEFF"

text \<open>\<open>s.replace(/\s+/g, " ")\<close>: every maximal run of whitespace becomes one SPACE.\<close>

function collapse_ws :: "jsstring \<Rightarrow> jsstring" where
  "collapse_ws [] = []"
| "collapse_ws (c # cs) =
     (if is_space c then 0x20 # collapse_ws (dropWhile is_space cs) else c # collapse_ws cs)"
  by pat_completeness auto
termination
  by (relation "measure length") (auto simp: length_dropWhile_le less_Suc_eq_le)

text \<open>\<open>s.trim()\<close>.\<close>

definition trim :: "jsstring \<Rightarrow> jsstring" where
  "trim s = rev (dropWhile is_space (rev (dropWhile is_space s)))"

text \<open>\<open>parts.join(sep)\<close> on an array of strings.\<close>

fun join :: "jsstring \<Rightarrow> jsstring list \<Rightarrow> jsstring" where
  "join sep [] = []"
| "join sep [x] = x"
| "join sep (x # y # ys) = x @ sep @ join sep (y # ys)"

text \<open>
  \<open>s.replace(pat, rep)\<close> with a string pattern: only the first occurrence is replaced.
  (The source's only replacement text is the empty string, so the \<open>$\<close> patterns of
  replacement texts play no part.)
\<close>

fun replace_first :: "jsstring \<Rightarrow> jsstring \<Rightarrow> jsstring \<Rightarrow> jsstring" where
  "replace_first pat rep [] = (if pat = [] then rep else [])"
| "replace_first pat rep (c # cs) =
     (if prefix pat (c # cs) then rep @ drop (length pat) (c # cs)
      else c # replace_first pat rep cs)"

text \<open>
  \<open>s.match(re)\<close> for a regular expression without flags: the pattern is tried at every
  start position from left to right (the end of the string included) and the first
  success is the match. \<open>at\<close> is the pattern anchored at the start of its argument and
  returns the capture group the source reads.
\<close>

fun regex_search :: "(jsstring \<Rightarrow> 'a option) \<Rightarrow> jsstring \<Rightarrow> 'a option" where
  "regex_search at [] = at []"
| "regex_search at (c # cs) =
     (case at (c # cs) of Some r \<Rightarrow> Some r | None \<Rightarrow> regex_search at cs)"

section \<open>JavaScript values and exceptions\<close>

datatype js_error = TypeError | ExternalFailure

text \<open>
  The values a field of a parsed JSON body can hold, as far as the source observes them
  (through truthiness and \<open>String(value)\<close>). A number is abstracted by its truthiness
  (false for \<open>0\<close>, \<open>-0\<close> and \<open>NaN\<close>) and its decimal text; an object or array by the
  outcome of its conversion to a string: \<open>Some s\<close>, or \<open>None\<close> when the conversion throws
  a TypeError (as for \<open>{"toString": 1}\<close>, whose \<open>toString\<close> is not callable and whose
  inherited \<open>valueOf\<close> returns the object itself).
\<close>

datatype jsval =
    JUndefined
  | JNull
  | JBool bool
  | JNumber bool jsstring
  | JStr jsstring
  | JObject "jsstring option"

fun to_boolean :: "jsval \<Rightarrow> bool" where
  "to_boolean JUndefined = False"
| "to_boolean JNull = False"
| "to_boolean (JBool b) = b"
| "to_boolean (JNumber t r) = t"
| "to_boolean (JStr s) = (s \<noteq> [])"
| "to_boolean (JObject r) = True"

text \<open>\<open>String(value)\<close>.\<close>

fun to_string :: "jsval \<Rightarrow> js_error + jsstring" where
  "to_string JUndefined = Inr (js ''undefined'')"
| "to_string JNull = Inr (js ''null'')"
| "to_string (JBool b) = Inr (if b then js ''true'' else js ''false'')"
| "to_string (JNumber t r) = Inr r"
| "to_string (JStr s) = Inr s"
| "to_string (JObject None) = Inl TypeError"
| "to_string (JObject (Some s)) = Inr s"

section \<open>Transcript segments\<close>

text \<open>
  A segment is an object with a \<open>text\<close> property (its timing properties are never read).
  The transcript collaborator delivers strings; a missing, \<open>undefined\<close> or \<open>null\<close>
  text is modelled as well.
\<close>

datatype text_field = Text jsstring | TextNull | TextUndefined

record segment =
  seg_text :: text_field

fun field_truthy :: "text_field \<Rightarrow> bool" where
  "field_truthy (Text s) = (s \<noteq> [])"
| "field_truthy TextNull = False"
| "field_truthy TextUndefined = False"

text \<open>The element conversion of \<open>Array.prototype.join\<close>: \<open>null\<close> and \<open>undefined\<close> give \<open>""\<close>.\<close>

fun field_join :: "text_field \<Rightarrow> jsstring" where
  "field_join (Text s) = s"
| "field_join TextNull = []"
| "field_join TextUndefined = []"

text \<open>Reading \<open>.length\<close>: a TypeError on \<open>null\<close> and \<open>undefined\<close>.\<close>

fun field_length :: "text_field \<Rightarrow> js_error + nat" where
  "field_length (Text s) = Inr (length s)"
| "field_length TextNull = Inl TypeError"
| "field_length TextUndefined = Inl TypeError"

definition MAX_TRANSCRIPT_CHARS :: nat where
  "MAX_TRANSCRIPT_CHARS = 12000"

definition STYLE_LIMIT :: nat where
  "STYLE_LIMIT = 240"

definition DETAIL_LIMIT :: nat where
  "DETAIL_LIMIT = 500"

definition normalizeTranscript :: "segment list \<Rightarrow> jsstring" where
  "normalizeTranscript segments =
     trim (collapse_ws (join (js '' '') (map (\<lambda>segment. field_join (seg_text segment)) segments)))"

definition segmentsToText :: "segment list \<Rightarrow> jsstring" where
  "segmentsToText segments =
     trim (collapse_ws (join (js '' '') (map (\<lambda>segment. field_join (seg_text segment)) segments)))"

section \<open>Style descriptor and length specification\<close>

definition clampText :: "jsval \<Rightarrow> nat \<Rightarrow> js_error + jsstring" where
  "clampText v maxLength =
     (if \<not> to_boolean v then Inr []
      else case to_string v of
             Inl e \<Rightarrow> Inl e
           | Inr s \<Rightarrow> Inr (take maxLength (trim (collapse_ws s))))"

definition buildStyleDescriptor :: "jsval \<Rightarrow> jsval \<Rightarrow> jsval \<Rightarrow> js_error + jsstring" where
  "buildStyleDescriptor stylePreset styleDetail language =
     (case clampText stylePreset STYLE_LIMIT of
        Inl e \<Rightarrow> Inl e
      | Inr safePreset \<Rightarrow>
     (case clampText styleDetail DETAIL_LIMIT of
        Inl e \<Rightarrow> Inl e
      | Inr safeDetail \<Rightarrow>
     (case clampText language 40 of
        Inl e \<Rightarrow> Inl e
      | Inr safeLanguage \<Rightarrow>
          Inr (join (js '' | '')
                 ((if safePreset \<noteq> [] then [safePreset] else []) @
                  (if safeDetail \<noteq> [] then [safeDetail] else []) @
                  (if safeLanguage \<noteq> [] \<and> safeLanguage \<noteq> js ''auto''
                   then [js ''Output language: '' @ safeLanguage] else []))))))"

text \<open>
  \<open>lengthMap[normalized] || lengthMap.medium\<close>, as the text the template literals
  interpolate. \<open>lengthMap\<close> is an object literal, so the lookup also finds the two
  properties it inherits under an all-lowercase name: \<open>constructor\<close> (the function
  \<open>Object\<close>) and \<open>__proto__\<close> (\<open>Object.prototype\<close>).
\<close>

definition lengthMap :: "jsstring \<Rightarrow> jsstring" where
  "lengthMap normalized =
     (if normalized = js ''short'' then js ''300-450 words''
      else if normalized = js ''medium'' then js ''600-900 words''
      else if normalized = js ''long'' then js ''1000-1400 words''
      else if normalized = js ''constructor'' then js ''function Object() { [native code] }''
      else if normalized = js ''__proto__'' then js ''[object Object]''
      else js ''600-900 words'')"

text \<open>
  \<open>toLowerCase\<close> follows the Unicode case tables of the platform and is a parameter.
\<close>

definition lengthSpecFromChoice :: "(jsstring \<Rightarrow> jsstring) \<Rightarrow> jsval \<Rightarrow> js_error + jsstring" where
  "lengthSpecFromChoice toLowerCase choice =
     (case to_string (if to_boolean choice then choice else JStr []) of
        Inl e \<Rightarrow> Inl e
      | Inr s \<Rightarrow> Inr (lengthMap (toLowerCase s)))"

section \<open>Rule-based article synthesizer\<close>

text \<open>
  The callback of \<open>segments.find\<close> in \<open>buildTitle\<close>:
  \<open>segment.text && segment.text.length > 5\<close>. The length is read only when the text is
  truthy.
\<close>

definition title_candidate :: "segment \<Rightarrow> js_error + bool" where
  "title_candidate segment =
     (if \<not> field_truthy (seg_text segment) then Inr False
      else case field_length (seg_text segment) of
             Inl e \<Rightarrow> Inl e
           | Inr n \<Rightarrow> Inr (5 < n))"

text \<open>\<open>Array.prototype.find\<close> with a callback that may throw.\<close>

fun find_js :: "('a \<Rightarrow> js_error + bool) \<Rightarrow> 'a list \<Rightarrow> js_error + 'a option" where
  "find_js p [] = Inr None"
| "find_js p (x # xs) =
     (case p x of
        Inl e \<Rightarrow> Inl e
      | Inr True \<Rightarrow> Inr (Some x)
      | Inr False \<Rightarrow> find_js p xs)"

definition buildTitle :: "segment list \<Rightarrow> js_error + jsstring" where
  "buildTitle segments =
     (case find_js title_candidate segments of
        Inl e \<Rightarrow> Inl e
      | Inr found \<Rightarrow>
          (let t = (case found of None \<Rightarrow> TextUndefined | Some segment \<Rightarrow> seg_text segment);
               seed = (if field_truthy t then t else Text (js ''Podcast Summary''))
           in case seed of
                Text s \<Rightarrow>
                  (let cleaned = trim (collapse_ws s)
                   in if cleaned = [] then Inr (js ''Podcast Summary'')
                      else Inr (if 70 < length cleaned
                                then trim (take 70 cleaned) @ js ''...''
                                else cleaned))
              | TextNull \<Rightarrow> Inl TypeError
              | TextUndefined \<Rightarrow> Inl TypeError))"

text \<open>
  The stride of \<open>samplePoints\<close>: \<open>Math.max(1, Math.floor(segments.length / count))\<close>.
  For \<open>count = 0\<close> JavaScript's stride is \<open>Infinity\<close> and HOL's is 1; the loop
  body is never entered then, because \<open>points.length < count\<close> fails at once.
\<close>

definition sample_step :: "segment list \<Rightarrow> nat \<Rightarrow> nat" where
  "sample_step segments count = max 1 (length segments div count)"

text \<open>
  The \<open>for\<close> loop of \<open>samplePoints\<close>, from index \<open>i\<close> with the points collected so far.
\<close>

function sample_loop :: "segment list \<Rightarrow> nat \<Rightarrow> nat \<Rightarrow> jsstring list \<Rightarrow> jsstring list" where
  "sample_loop segments count i points =
     (if i < length segments \<and> length points < count
      then (let chunk = segmentsToText (take 3 (drop i segments))
            in sample_loop segments count (i + sample_step segments count)
                 (if chunk \<noteq> [] then points @ [chunk] else points))
      else points)"
  by pat_completeness auto
termination
  by (relation "measure (\<lambda>(segments, count, i, points). length segments - i)")
     (auto simp: sample_step_def)

declare sample_loop.simps [simp del]

definition samplePoints :: "segment list \<Rightarrow> nat \<Rightarrow> jsstring list" where
  "samplePoints segments count =
     (if segments = [] then [] else sample_loop segments count 0 [])"

definition ruleBasedArticle ::
  "segment list \<Rightarrow> jsstring \<Rightarrow> jsstring \<Rightarrow> bool \<Rightarrow> js_error + jsstring" where
  "ruleBasedArticle segments styleDescriptor lengthSpec truncated =
     (case buildTitle segments of
        Inl e \<Rightarrow> Inl e
      | Inr title \<Rightarrow>
          (let intro = segmentsToText (take 6 segments);
               closing = segmentsToText (drop (length segments - 6) segments);
               points = samplePoints segments 5;
               styleLine = (if styleDescriptor \<noteq> []
                            then js ''Style focus: '' @ styleDescriptor @ js ''.''
                            else js ''Style focus: neutral summary.'');
               scopeLine = (if truncated
                            then js ''Note: transcript truncated to fit context.''
                            else js ''Note: transcript fully included for this summary.'')
           in Inr (join newline
                [js ''# '' @ title,
                 [],
                 js ''## Overview'',
                 styleLine @ js '' '' @ intro,
                 [],
                 js ''Target length: '' @ lengthSpec @ js ''.'',
                 [],
                 js ''## Key Points'',
                 join newline (map (\<lambda>point. js ''- '' @ point) points),
                 [],
                 js ''## Closing'',
                 (if closing \<noteq> [] then closing
                  else js ''The discussion concludes with a wrap-up of key takeaways.''),
                 [],
                 js ''## Source Notes'',
                 scopeLine @ js '' This article is generated from the transcript and may omit details.''])))"

section \<open>Article generator\<close>

text \<open>
  The external language-model collaborator: given the system and the user prompt, the
  construction of the client and the request either throw, or deliver a response whose
  \<open>output_text\<close> is a string (\<open>Some\<close>) or missing (\<open>None\<close>).
\<close>

type_synonym openai_client = "jsstring \<Rightarrow> jsstring \<Rightarrow> js_error + jsstring option"

text \<open>What a call leaves behind: a request to the collaborator, a line on the error log.\<close>

datatype event = ExternalRequest jsstring jsstring | ErrorLogged jsstring

record process_env =
  OPENAI_API_KEY :: "jsstring option"

definition credential_configured :: "process_env \<Rightarrow> bool" where
  "credential_configured env =
     (case OPENAI_API_KEY env of None \<Rightarrow> False | Some k \<Rightarrow> k \<noteq> [])"

definition openai_user_prompt :: "jsstring \<Rightarrow> jsstring \<Rightarrow> jsstring \<Rightarrow> bool \<Rightarrow> jsstring" where
  "openai_user_prompt transcript styleDescriptor lengthSpec truncated =
     (let styleLine = (if styleDescriptor \<noteq> []
                       then js ''Style notes: '' @ styleDescriptor @ js ''.''
                       else js ''Style notes: neutral professional tone.'');
          transcriptLine = (if truncated then js ''Transcript (truncated for length):''
                            else js ''Transcript:'')
      in join (newline @ newline)
           [styleLine,
            js ''Target length: '' @ lengthSpec @ js ''.'',
            js ''Provide a title, section headings, and a short key points list.'',
            transcriptLine,
            transcript])"

definition openai_system_prompt :: jsstring where
  "openai_system_prompt =
     js ''You turn podcast transcripts into structured articles. '' @
     js ''Do not invent details that are not in the transcript.''"

definition generateWithOpenAI ::
  "openai_client \<Rightarrow> jsstring \<Rightarrow> jsstring \<Rightarrow> jsstring \<Rightarrow> bool \<Rightarrow>
   (js_error + jsstring) \<times> event list" where
  "generateWithOpenAI client transcript styleDescriptor lengthSpec truncated =
     (let userPrompt = openai_user_prompt transcript styleDescriptor lengthSpec truncated
      in (case client openai_system_prompt userPrompt of
            Inl e \<Rightarrow> Inl e
          | Inr output_text \<Rightarrow>
              Inr (trim (case output_text of None \<Rightarrow> [] | Some s \<Rightarrow> s)),
          [ExternalRequest openai_system_prompt userPrompt]))"

record generation_request =
  transcript :: jsstring
  segments :: "segment list"
  stylePreset :: jsval
  styleDetail :: jsval
  length_choice :: jsval
  language :: jsval
  truncated :: bool

record generation_result =
  gr_text :: jsstring
  gr_mode :: jsstring

definition fallback_result ::
  "segment list \<Rightarrow> jsstring \<Rightarrow> jsstring \<Rightarrow> bool \<Rightarrow> js_error + generation_result" where
  "fallback_result segs styleDescriptor lengthSpec trunc =
     (case ruleBasedArticle segs styleDescriptor lengthSpec trunc of
        Inl e \<Rightarrow> Inl e
      | Inr article \<Rightarrow> Inr \<lparr>gr_text = article, gr_mode = js ''fallback''\<rparr>)"

definition generateArticle ::
  "(jsstring \<Rightarrow> jsstring) \<Rightarrow> process_env \<Rightarrow> openai_client \<Rightarrow> generation_request \<Rightarrow>
   (js_error + generation_result) \<times> event list" where
  "generateArticle toLowerCase env client req =
     (case buildStyleDescriptor (stylePreset req) (styleDetail req) (language req) of
        Inl e \<Rightarrow> (Inl e, [])
      | Inr styleDescriptor \<Rightarrow>
     (case lengthSpecFromChoice toLowerCase (length_choice req) of
        Inl e \<Rightarrow> (Inl e, [])
      | Inr lengthSpec \<Rightarrow>
          (if credential_configured env
           then (case generateWithOpenAI client (transcript req) styleDescriptor lengthSpec
                        (truncated req) of
                   (Inr t, evs) \<Rightarrow>
                     (if t \<noteq> [] then (Inr \<lparr>gr_text = t, gr_mode = js ''openai''\<rparr>, evs)
                      else (fallback_result (segments req) styleDescriptor lengthSpec
                              (truncated req), evs))
                 | (Inl e, evs) \<Rightarrow>
                     (fallback_result (segments req) styleDescriptor lengthSpec (truncated req),
                      evs @ [ErrorLogged (js ''OpenAI generation failed:'')]))
           else (fallback_result (segments req) styleDescriptor lengthSpec (truncated req),
                 []))))"

section \<open>Video id extractor\<close>

text \<open>
  The part of a parsed \<open>URL\<close> object the source reads. \<open>new URL(s)\<close> belongs to the
  platform and is a parameter of the extractor: \<open>None\<close> stands for the TypeError it throws
  on a string that is not an absolute URL.
\<close>

record url =
  hostname :: jsstring
  pathname :: jsstring
  searchParams :: "(jsstring \<times> jsstring) list"

type_synonym url_parser = "jsstring \<Rightarrow> url option"

text \<open>\<open>searchParams.get(name)\<close>: the first value under the name, or \<open>null\<close>.\<close>

fun search_get :: "(jsstring \<times> jsstring) list \<Rightarrow> jsstring \<Rightarrow> jsstring option" where
  "search_get [] name = None"
| "search_get ((k, v) # ps) name = (if k = name then Some v else search_get ps name)"

text \<open>
  \<open>/\/(shorts|live|embed)\/([^/?]+)/\<close> anchored at the start of \<open>s\<close>, returning group 2.
\<close>

definition path_pattern_at :: "jsstring \<Rightarrow> jsstring option" where
  "path_pattern_at s =
     (case find (\<lambda>p. prefix p s) [js ''/shorts/'', js ''/live/'', js ''/embed/''] of
        None \<Rightarrow> None
      | Some p \<Rightarrow>
          (let token = takeWhile (\<lambda>c. c \<noteq> of_char CHR ''/'' \<and> c \<noteq> of_char CHR ''?'')
                         (drop (length p) s)
           in if token \<noteq> [] then Some token else None))"

text \<open>The character class \<open>[a-zA-Z0-9_-]\<close>.\<close>

definition is_id_char :: "code_unit \<Rightarrow> bool" where
  "is_id_char c \<longleftrightarrow>
     (of_char CHR ''a'' \<le> c \<and> c \<le> of_char CHR ''z'') \<or>
     (of_char CHR ''A'' \<le> c \<and> c \<le> of_char CHR ''Z'') \<or>
     (of_char CHR ''0'' \<le> c \<and> c \<le> of_char CHR ''9'') \<or>
     c = of_char CHR ''_'' \<or> c = of_char CHR ''-''"

definition fallback_prefixes :: "jsstring list" where
  "fallback_prefixes =
     [js ''v='', js ''youtu.be/'', js ''/shorts/'', js ''/live/'', js ''/embed/'']"

text \<open>
  \<open>/(?:v=|youtu\.be\/|\/shorts\/|\/live\/|\/embed\/)([a-zA-Z0-9_-]{6,})/\<close> anchored at
  the start of \<open>s\<close>, returning group 1. No two alternatives start alike, so at most one
  of them matches at a position; the greedy class takes the longest run.
\<close>

definition fallback_pattern_at :: "jsstring \<Rightarrow> jsstring option" where
  "fallback_pattern_at s =
     (case find (\<lambda>p. prefix p s) fallback_prefixes of
        None \<Rightarrow> None
      | Some p \<Rightarrow>
          (let token = takeWhile is_id_char (drop (length p) s)
           in if 6 \<le> length token then Some token else None))"

text \<open>
  The \<open>try\<close> block of \<open>extractVideoId\<close>: \<open>Some id\<close> when it returns, \<open>None\<close> when it
  falls through to the fallback (the parse threw and the exception was caught, or no
  branch returned).
\<close>

definition structured_id :: "url_parser \<Rightarrow> jsstring \<Rightarrow> jsstring option" where
  "structured_id parse trimmed =
     (case parse trimmed of
        None \<Rightarrow> None
      | Some parsed \<Rightarrow>
          (let host = replace_first (js ''www.'') [] (hostname parsed)
           in if host = js ''youtu.be''
              then Some (filter (\<lambda>c. c \<noteq> of_char CHR ''/'') (pathname parsed))
              else if suffix (js ''youtube.com'') host
              then (let idFromQuery = search_get (searchParams parsed) (js ''v'')
                    in if idFromQuery \<noteq> None \<and> idFromQuery \<noteq> Some []
                       then idFromQuery
                       else regex_search path_pattern_at (pathname parsed))
              else None))"

text \<open>The result \<open>None\<close> is JavaScript's \<open>null\<close>.\<close>

definition extractVideoId :: "url_parser \<Rightarrow> jsstring \<Rightarrow> jsstring option" where
  "extractVideoId parse input =
     (let trimmed = trim input
      in case structured_id parse trimmed of
           Some videoId \<Rightarrow> Some videoId
         | None \<Rightarrow> regex_search fallback_pattern_at trimmed)"

section \<open>The generate endpoint\<close>

record request_body =
  b_url :: jsval
  b_stylePreset :: jsval
  b_styleDetail :: jsval
  b_length :: jsval
  b_language :: jsval

record payload =
  p_videoId :: jsstring
  p_transcript :: jsstring
  p_truncated :: bool
  p_article :: jsstring
  p_mode :: jsstring

datatype response = Json payload | ErrorStatus nat jsstring

text \<open>
  The transcript collaborator: throws, or delivers an array of segments (\<open>None\<close> for a
  missing one).
\<close>

type_synonym transcript_fetcher = "jsstring \<Rightarrow> js_error + segment list option"

record platform =
  url_parse :: url_parser
  to_lower_case :: "jsstring \<Rightarrow> jsstring"
  process_environment :: process_env
  fetchTranscript :: transcript_fetcher
  openai :: openai_client

definition generate_handler :: "platform \<Rightarrow> request_body \<Rightarrow> response \<times> event list" where
  "generate_handler sys body =
     (case b_url body of
        JStr u \<Rightarrow>
          (if u = [] then (ErrorStatus 400 (js ''Please provide a YouTube URL.''), [])
           else case extractVideoId (url_parse sys) u of
             None \<Rightarrow> (ErrorStatus 400 (js ''Unable to parse the YouTube video ID.''), [])
           | Some videoId \<Rightarrow>
               (if videoId = []
                then (ErrorStatus 400 (js ''Unable to parse the YouTube video ID.''), [])
                else case fetchTranscript sys videoId of
                  Inl e \<Rightarrow>
                    (ErrorStatus 502
                       (js ''Failed to fetch the transcript. Check if captions are available.''),
                     [ErrorLogged (js ''Transcript fetch failed:'')])
                | Inr None \<Rightarrow> (ErrorStatus 404 (js ''No transcript found for this video.''), [])
                | Inr (Some segs) \<Rightarrow>
                    (if segs = []
                     then (ErrorStatus 404 (js ''No transcript found for this video.''), [])
                     else
                       (let transcriptText = normalizeTranscript segs;
                            trunc = (MAX_TRANSCRIPT_CHARS < length transcriptText);
                            transcr = (if trunc
                                       then take MAX_TRANSCRIPT_CHARS transcriptText @ js '' ...''
                                       else transcriptText)
                        in case generateArticle (to_lower_case sys) (process_environment sys)
                                  (openai sys)
                                  \<lparr>transcript = transcr, segments = segs,
                                   stylePreset = b_stylePreset body,
                                   styleDetail = b_styleDetail body,
                                   length_choice = b_length body,
                                   language = b_language body,
                                   truncated = trunc\<rparr> of
                             (Inr r, evs) \<Rightarrow>
                               (Json \<lparr>p_videoId = videoId, p_transcript = transcr,
                                      p_truncated = trunc, p_article = gr_text r,
                                      p_mode = gr_mode r\<rparr>, evs)
                           | (Inl e, evs) \<Rightarrow>
                               (ErrorStatus 500 (js ''Failed to generate article.''),
                                evs @ [ErrorLogged (js ''Article generation failed:'')])))))
      | _ \<Rightarrow> (ErrorStatus 400 (js ''Please provide a YouTube URL.''), []))"

section \<open>A plain platform instance\<close>

text \<open>
  A parser for the plain shape \<open>http(s)://host/path?query#fragment\<close>, with a host of
  lowercase letters and dots, a path of letters, digits, \<open>_\<close>, \<open>-\<close> and \<open>/\<close>, and a query
  of letters, digits, \<open>_\<close>, \<open>-\<close>, \<open>=\<close> and \<open>&\<close>. On such a string the platform's parser
  changes nothing (no case folding, percent coding or dot segment applies) and delivers
  the components below; every other string is rejected here. It instantiates the
  parameter in the examples.
\<close>

definition is_lower_alpha :: "code_unit \<Rightarrow> bool" where
  "is_lower_alpha c \<longleftrightarrow> of_char CHR ''a'' \<le> c \<and> c \<le> of_char CHR ''z''"

fun split_on :: "'a \<Rightarrow> 'a list \<Rightarrow> 'a list list" where
  "split_on d [] = [[]]"
| "split_on d (c # cs) =
     (if c = d then [] # split_on d cs
      else case split_on d cs of
             [] \<Rightarrow> [[c]]
           | l # ls \<Rightarrow> (c # l) # ls)"

definition query_pair :: "jsstring \<Rightarrow> jsstring \<times> jsstring" where
  "query_pair s =
     (takeWhile (\<lambda>c. c \<noteq> of_char CHR ''='') s,
      drop 1 (dropWhile (\<lambda>c. c \<noteq> of_char CHR ''='') s))"

definition plain_url_parse :: url_parser where
  "plain_url_parse s =
     (case find (\<lambda>p. prefix p s) [js ''https://'', js ''http://''] of
        None \<Rightarrow> None
      | Some scheme \<Rightarrow>
          (let rest = drop (length scheme) s;
               stop = (\<lambda>c. c = of_char CHR ''/'' \<or> c = of_char CHR ''?'' \<or> c = of_char CHR ''#'');
               host = takeWhile (\<lambda>c. \<not> stop c) rest;
               after_host = dropWhile (\<lambda>c. \<not> stop c) rest;
               no_fragment = takeWhile (\<lambda>c. c \<noteq> of_char CHR ''#'') after_host;
               path = takeWhile (\<lambda>c. c \<noteq> of_char CHR ''?'') no_fragment;
               query = drop 1 (dropWhile (\<lambda>c. c \<noteq> of_char CHR ''?'') no_fragment)
           in if host \<noteq> [] \<and> is_lower_alpha (hd host) \<and> is_lower_alpha (last host) \<and>
                 list_all (\<lambda>c. is_lower_alpha c \<or> c = of_char CHR ''.'') host \<and>
                 list_all (\<lambda>c. is_id_char c \<or> c = of_char CHR ''/'') path \<and>
                 \<not> sublist (js ''//'') path \<and>
                 list_all (\<lambda>c. is_id_char c \<or> c = of_char CHR ''='' \<or> c = of_char CHR ''&'') query
              then Some \<lparr>hostname = host,
                         pathname = (if path = [] then js ''/'' else path),
                         searchParams =
                           map query_pair (filter (\<lambda>q. q \<noteq> []) (split_on (of_char CHR ''&'') query))\<rparr>
              else None))"

text \<open>Lowercasing of the ASCII letters, as \<open>toLowerCase\<close> does on ASCII text.\<close>

definition ascii_lower :: "jsstring \<Rightarrow> jsstring" where
  "ascii_lower s =
     map (\<lambda>c. if of_char CHR ''A'' \<le> c \<and> c \<le> of_char CHR ''Z'' then c + 32 else c) s"

section \<open>The specification's reading of the operations\<close>

text \<open>
  The title as the specification words it: the first segment, in original order, whose
  text is longer than 5 code units; its text cleaned; capped at 70 code units with an
  ellipsis when longer; the default title when there is no such segment or the cleaned
  text is empty.
\<close>

definition qualifies :: "segment \<Rightarrow> bool" where
  "qualifies segment =
     (case seg_text segment of Text s \<Rightarrow> 5 < length s | TextNull \<Rightarrow> False | TextUndefined \<Rightarrow> False)"

definition title_spec :: "segment list \<Rightarrow> jsstring" where
  "title_spec segs =
     (case find qualifies segs of
        None \<Rightarrow> js ''Podcast Summary''
      | Some segment \<Rightarrow>
          (let cleaned = trim (collapse_ws (field_join (seg_text segment)))
           in if cleaned = [] then js ''Podcast Summary''
              else if 70 < length cleaned then trim (take 70 cleaned) @ js ''...''
              else cleaned))"

text \<open>
  The key points as the specification words them: the indices \<open>0, step, 2 step, ...\<close>
  below the number of segments, with \<open>step = max 1 (n div count)\<close>; at each index the
  cleaned text of the window of 3 segments that starts there; the empty ones skipped;
  the first \<open>count\<close> of the rest.
\<close>

definition stride_indices :: "nat \<Rightarrow> nat \<Rightarrow> nat list" where
  "stride_indices step n = filter (\<lambda>j. j mod step = 0) [0..<n]"

definition window_text :: "segment list \<Rightarrow> nat \<Rightarrow> jsstring" where
  "window_text segs i = segmentsToText (take 3 (drop i segs))"

definition key_points_spec :: "segment list \<Rightarrow> nat \<Rightarrow> jsstring list" where
  "key_points_spec segs count =
     take count
       (filter (\<lambda>point. point \<noteq> [])
          (map (window_text segs)
             (stride_indices (max 1 (length segs div count)) (length segs))))"

text \<open>A segment whose text holds a code unit that is not whitespace.\<close>

definition visible_text :: "segment \<Rightarrow> bool" where
  "visible_text segment = (\<not> list_all is_space (field_join (seg_text segment)))"

text \<open>A segment whose text is a non-empty string.\<close>

definition nonempty_text :: "segment \<Rightarrow> bool" where
  "nonempty_text segment =
     (case seg_text segment of Text s \<Rightarrow> s \<noteq> [] | TextNull \<Rightarrow> False | TextUndefined \<Rightarrow> False)"

text \<open>
  The lines of a text (\<open>s.split("\n")\<close>), and the article line by line as the
  specification lays it out: title heading, Overview section, target-length statement,
  Key Points list (one bullet per point, one empty line when there is no point),
  Closing section, Source Notes section.
\<close>

definition split_lines :: "jsstring \<Rightarrow> jsstring list" where
  "split_lines s = split_on 0xA s"

definition bullet_lines :: "jsstring list \<Rightarrow> jsstring list" where
  "bullet_lines points = (if points = [] then [[]] else map (\<lambda>point. js ''- '' @ point) points)"

definition article_lines :: "segment list \<Rightarrow> jsstring \<Rightarrow> jsstring \<Rightarrow> bool \<Rightarrow> jsstring list" where
  "article_lines segs styleDescriptor lengthSpec trunc =
     [js ''# '' @ title_spec segs,
      [],
      js ''## Overview'',
      (if styleDescriptor \<noteq> [] then js ''Style focus: '' @ styleDescriptor @ js ''.''
       else js ''Style focus: neutral summary.'') @ js '' '' @ segmentsToText (take 6 segs),
      [],
      js ''Target length: '' @ lengthSpec @ js ''.'',
      [],
      js ''## Key Points''] @
     bullet_lines (key_points_spec segs 5) @
     [[],
      js ''## Closing'',
      (if segmentsToText (drop (length segs - 6) segs) \<noteq> []
       then segmentsToText (drop (length segs - 6) segs)
       else js ''The discussion concludes with a wrap-up of key takeaways.''),
      [],
      js ''## Source Notes'',
      (if trunc then js ''Note: transcript truncated to fit context.''
       else js ''Note: transcript fully included for this summary.'') @
      js '' This article is generated from the transcript and may omit details.'']"

text \<open>
  The style descriptor as the specification words it: each field whitespace-normalized,
  then cut to its cap; the non-empty ones joined by \<open>" | "\<close>; the language clause
  left out when the clamped language is empty or \<open>auto\<close>.
\<close>

definition clamped :: "nat \<Rightarrow> jsstring \<Rightarrow> jsstring" where
  "clamped cap s = take cap (trim (collapse_ws s))"

definition descriptor_spec :: "jsstring \<Rightarrow> jsstring \<Rightarrow> jsstring \<Rightarrow> jsstring" where
  "descriptor_spec preset detail lang =
     join (js '' | '')
       (filter (\<lambda>part. part \<noteq> []) [clamped 240 preset, clamped 500 detail] @
        (if clamped 40 lang = [] \<or> clamped 40 lang = js ''auto'' then []
         else [js ''Output language: '' @ clamped 40 lang]))"

text \<open>A segment with a missing, \<open>null\<close> or \<open>undefined\<close> text, read as the empty string.\<close>

definition blank_missing :: "segment \<Rightarrow> segment" where
  "blank_missing segment = \<lparr>seg_text = Text (field_join (seg_text segment))\<rparr>"

text \<open>
  No id-like token for the fallback pattern: at no position of the text does one of
  the introducing strings stand with 6 or more id characters after it.
\<close>

definition no_id_token :: "jsstring \<Rightarrow> bool" where
  "no_id_token t =
     list_all (\<lambda>i. list_all (\<lambda>p. \<not> (prefix p (drop i t) \<and>
                         6 \<le> length (takeWhile is_id_char (drop (length p) (drop i t)))))
                 fallback_prefixes)
       [0..<Suc (length t)]"

text \<open>The total length of the segment texts, and the payload of a successful response.\<close>

definition total_text_length :: "segment list \<Rightarrow> nat" where
  "total_text_length segs = sum_list (map (\<lambda>segment. length (field_join (seg_text segment))) segs)"

fun response_payload :: "response \<Rightarrow> payload option" where
  "response_payload (Json p) = Some p"
| "response_payload (ErrorStatus status message) = None"

text \<open>Two neighbouring code units that are not both whitespace.\<close>

definition not_both_space :: "code_unit \<Rightarrow> code_unit \<Rightarrow> bool" where
  "not_both_space a b = (\<not> (is_space a \<and> is_space b))"

section \<open>Example inputs\<close>

definition title_example :: "segment list" where
  "title_example =
     [\<lparr>seg_text = Text (js ''hi'')\<rparr>,
      \<lparr>seg_text = TextNull\<rparr>,
      \<lparr>seg_text = Text (js ''  welcome   to the show where we talk about formal methods and the people behind them  '')\<rparr>,
      \<lparr>seg_text = Text (js ''another long segment'')\<rparr>]"

definition blank_segments :: "segment list" where
  "blank_segments = replicate 20 \<lparr>seg_text = Text (js '' '')\<rparr>"

definition word_segments :: "nat \<Rightarrow> segment list" where
  "word_segments n = replicate n \<lparr>seg_text = Text (js ''word'')\<rparr>"

definition degenerate_segments :: "segment list" where
  "degenerate_segments =
     [\<lparr>seg_text = TextUndefined\<rparr>,
      \<lparr>seg_text = Text (js ''hello  there'')\<rparr>,
      \<lparr>seg_text = TextNull\<rparr>,
      \<lparr>seg_text = Text (js ''world'')\<rparr>]"

definition example_request :: generation_request where
  "example_request =
     \<lparr>transcript = js ''word word'', segments = word_segments 2,
      stylePreset = JStr (js ''casual tone''), styleDetail = JUndefined,
      length_choice = JStr (js ''Short''), language = JStr (js ''auto''),
      truncated = False\<rparr>"

definition failing_client :: openai_client where
  "failing_client systemPrompt userPrompt = Inl ExternalFailure"

definition blank_client :: openai_client where
  "blank_client systemPrompt userPrompt = Inr (Some (js ''   ''))"

definition answering_client :: openai_client where
  "answering_client systemPrompt userPrompt = Inr (Some (js '' An article. ''))"

definition env_with_key :: process_env where
  "env_with_key = \<lparr>OPENAI_API_KEY = Some (js ''sk-test'')\<rparr>"

definition env_without_key :: process_env where
  "env_without_key = \<lparr>OPENAI_API_KEY = None\<rparr>"

definition plain_platform ::
  "process_env \<Rightarrow> transcript_fetcher \<Rightarrow> openai_client \<Rightarrow> platform" where
  "plain_platform env fetch client =
     \<lparr>url_parse = plain_url_parse, to_lower_case = ascii_lower, process_environment = env,
      fetchTranscript = fetch, openai = client\<rparr>"

definition example_body :: request_body where
  "example_body =
     \<lparr>b_url = JStr (js ''https://youtu.be/abc123xy''),
      b_stylePreset = JStr (js ''casual tone''), b_styleDetail = JUndefined,
      b_length = JStr (js ''Short''), b_language = JStr (js ''auto'')\<rparr>"

definition letter_segments :: "nat \<Rightarrow> segment list" where
  "letter_segments n = replicate n \<lparr>seg_text = Text (js ''a'')\<rparr>"

definition fetch_const :: "segment list \<Rightarrow> transcript_fetcher" where
  "fetch_const segs videoId = Inr (Some segs)"

section \<open>Properties of the string operations\<close>

lemma is_space_SP: "is_space 0x20"
  by (simp add: is_space_def)

lemma is_space_LF: "is_space 0xA"
  by (simp add: is_space_def)

lemma collapse_ws_set:
  "c \<in> set (collapse_ws s) \<Longrightarrow> c = 0x20 \<or> (c \<in> set s \<and> \<not> is_space c)"
proof (induction s rule: collapse_ws.induct)
  case 1
  then show ?case by simp
next
  case (2 d ds)
  show ?case
  proof (cases "is_space d")
    case True
    with 2 have "c = 0x20 \<or> c \<in> set (collapse_ws (dropWhile is_space ds))" by simp
    then show ?thesis
      using 2(1) [OF True] set_dropWhileD [of c is_space ds] by auto
  next
    case False
    with 2 show ?thesis by auto
  qed
qed

lemma collapse_ws_has_nonspace:
  "(\<exists>c\<in>set (collapse_ws s). \<not> is_space c) \<longleftrightarrow> (\<exists>c\<in>set s. \<not> is_space c)"
proof (induction s rule: collapse_ws.induct)
  case 1
  then show ?case by simp
next
  case (2 d ds)
  show ?case
  proof (cases "is_space d")
    case True
    have "(\<exists>c\<in>set (dropWhile is_space ds). \<not> is_space c) \<longleftrightarrow> (\<exists>c\<in>set ds. \<not> is_space c)"
      by (induction ds) auto
    with True 2(1) show ?thesis by (simp add: is_space_SP)
  next
    case False
    then show ?thesis by auto
  qed
qed

lemma length_collapse_ws: "length (collapse_ws s) \<le> length s"
proof (induction s rule: collapse_ws.induct)
  case 1
  then show ?case by simp
next
  case (2 d ds)
  have "length (dropWhile is_space ds) \<le> length ds" by (rule length_dropWhile_le)
  with 2 show ?case by (cases "is_space d") auto
qed

lemma set_trim: "set (trim s) \<subseteq> set s"
proof -
  have "set (dropWhile is_space (rev (dropWhile is_space s))) \<subseteq> set (rev (dropWhile is_space s))"
    by (meson set_dropWhileD subsetI)
  also have "\<dots> \<subseteq> set s" using set_dropWhileD by fastforce
  finally show ?thesis by (simp add: trim_def)
qed

lemma length_trim: "length (trim s) \<le> length s"
proof -
  have "length (trim s) \<le> length (dropWhile is_space s)"
    unfolding trim_def using length_dropWhile_le [of is_space "rev (dropWhile is_space s)"] by simp
  also have "\<dots> \<le> length s" by (rule length_dropWhile_le)
  finally show ?thesis .
qed

lemma trim_eq_Nil: "trim s = [] \<longleftrightarrow> (\<forall>c\<in>set s. is_space c)"
proof -
  have "trim s = [] \<longleftrightarrow> (\<forall>c\<in>set (dropWhile is_space s). is_space c)"
    by (simp add: trim_def dropWhile_eq_Nil_conv)
  also have "\<dots> \<longleftrightarrow> (\<forall>c\<in>set s. is_space c)"
    by (induction s) auto
  finally show ?thesis .
qed

lemma clean_eq_Nil: "trim (collapse_ws s) = [] \<longleftrightarrow> (\<forall>c\<in>set s. is_space c)"
  using collapse_ws_has_nonspace [of s] by (auto simp: trim_eq_Nil)

lemma newline_notin_clean: "0xA \<notin> set (trim (collapse_ws s))"
proof
  assume "0xA \<in> set (trim (collapse_ws s))"
  then have "(0xA :: code_unit) \<in> set (collapse_ws s)" using set_trim by blast
  then show False using collapse_ws_set [of "0xA" s] is_space_LF by auto
qed

lemma trim_no_change:
  "s \<noteq> [] \<Longrightarrow> \<not> is_space (hd s) \<Longrightarrow> \<not> is_space (last s) \<Longrightarrow> trim s = s"
proof -
  assume a: "s \<noteq> []" "\<not> is_space (hd s)" "\<not> is_space (last s)"
  then have 1: "dropWhile is_space s = s" by (simp add: dropWhile_eq_self_iff)
  from a have 2: "dropWhile is_space (rev s) = rev s"
    by (simp add: dropWhile_eq_self_iff hd_rev)
  show ?thesis by (simp add: trim_def 1 2)
qed

lemma trim_prefix: "prefix (trim s) (dropWhile is_space s)"
proof -
  have "suffix (dropWhile is_space (rev (dropWhile is_space s))) (rev (dropWhile is_space s))"
    by (rule suffix_dropWhile)
  then show ?thesis
    by (metis trim_def rev_rev_ident suffix_to_prefix)
qed

lemma trim_ends:
  assumes "trim s \<noteq> []"
  shows "\<not> is_space (hd (trim s))" and "\<not> is_space (last (trim s))"
proof -
  let ?d = "dropWhile is_space s"
  let ?r = "dropWhile is_space (rev ?d)"
  from assms have r: "?r \<noteq> []" by (simp add: trim_def)
  then have "\<not> is_space (hd ?r)" by (rule hd_dropWhile)
  then show "\<not> is_space (last (trim s))" using r by (simp add: trim_def last_rev)
  from r have d: "?d \<noteq> []" by (metis dropWhile.simps(1) rev.simps(1))
  then have hd: "\<not> is_space (hd ?d)" by (rule hd_dropWhile)
  from trim_prefix [of s] assms have "hd (trim s) = hd ?d"
    by (metis hd_append2 prefix_def)
  with hd show "\<not> is_space (hd (trim s))" by simp
qed

section \<open>The title\<close>

lemma find_js_title_candidate: "find_js title_candidate segs = Inr (find qualifies segs)"
proof (induction segs)
  case Nil
  then show ?case by simp
next
  case (Cons seg segs)
  then show ?case
    by (cases "seg_text seg") (simp_all add: title_candidate_def qualifies_def)
qed

lemma clean_default_title:
  "trim (collapse_ws (js ''Podcast Summary'')) = js ''Podcast Summary''"
  by code_simp

lemma default_title_length: "length (js ''Podcast Summary'') = 15"
  by (simp add: js_def)

lemma buildTitle_eq: "buildTitle segs = Inr (title_spec segs)"
proof (cases "find qualifies segs")
  case None
  then show ?thesis
    by (simp add: buildTitle_def title_spec_def find_js_title_candidate
        clean_default_title default_title_length Let_def)
next
  case (Some seg)
  then have "qualifies seg" by (auto simp: find_Some_iff)
  then obtain s where s: "seg_text seg = Text s" "5 < length s"
    by (cases "seg_text seg") (auto simp: qualifies_def)
  then have "s \<noteq> []" by auto
  with Some s show ?thesis
    by (simp add: buildTitle_def title_spec_def find_js_title_candidate Let_def)
qed

lemma capped_prefix:
  assumes "cleaned = trim (collapse_ws s)" and "cleaned \<noteq> []"
  shows "prefix (trim (take n cleaned)) cleaned" and "length (trim (take n cleaned)) \<le> n"
proof -
  have "prefix (trim (take n cleaned)) (dropWhile is_space (take n cleaned))"
    by (rule trim_prefix)
  moreover have "prefix (dropWhile is_space (take n cleaned)) (take n cleaned)"
  proof -
    have "\<not> is_space (hd cleaned)" using assms trim_ends(1) by blast
    then have "dropWhile is_space (take n cleaned) = take n cleaned"
      by (cases cleaned; cases n) auto
    then show ?thesis by simp
  qed
  moreover have "prefix (take n cleaned) cleaned" by (rule take_is_prefix)
  ultimately show "prefix (trim (take n cleaned)) cleaned" by (meson prefix_order.trans)
  have "length (trim (take n cleaned)) \<le> length (take n cleaned)" by (rule length_trim)
  then show "length (trim (take n cleaned)) \<le> n" by simp
qed

lemma collapse_ws_single_spaced:
  "successively not_both_space (collapse_ws s)"
proof (induction s rule: collapse_ws.induct)
  case 1
  then show ?case by simp
next
  case (2 d ds)
  show ?case
  proof (cases "is_space d")
    case True
    let ?r = "dropWhile is_space ds"
    have "collapse_ws ?r = [] \<or> \<not> is_space (hd (collapse_ws ?r))"
    proof (cases ?r)
      case Nil
      then have "collapse_ws ?r = []" by (simp only: collapse_ws.simps)
      then show ?thesis ..
    next
      case (Cons e es)
      then have "\<not> is_space e" using hd_dropWhile [of is_space ds] by simp
      then have "\<not> is_space (hd (collapse_ws (e # es)))" by simp
      then show ?thesis by (simp only: Cons simp_thms)
    qed
    with True 2(1) show ?thesis by (auto simp: successively_Cons not_both_space_def)
  next
    case False
    with 2(2) show ?thesis by (simp add: successively_Cons not_both_space_def)
  qed
qed

lemma single_spaced_dropWhile:
  assumes "successively not_both_space s"
  shows "successively not_both_space (dropWhile P s)"
proof -
  have "s = takeWhile P s @ dropWhile P s" by simp
  with assms show ?thesis by (metis successively_append_iff)
qed

lemma single_spaced_rev:
  "successively not_both_space (rev s) \<longleftrightarrow>
   successively not_both_space s"
proof -
  have e: "(\<lambda>x y. not_both_space y x) = not_both_space"
    by (intro ext) (auto simp: not_both_space_def)
  show ?thesis unfolding successively_rev e ..
qed

lemma single_spaced_trim:
  assumes "successively not_both_space s"
  shows "successively not_both_space (trim s)"
  unfolding trim_def single_spaced_rev
  by (intro single_spaced_dropWhile) (simp only: single_spaced_rev single_spaced_dropWhile assms)

lemma single_spaced_take:
  assumes "successively not_both_space s"
  shows "successively not_both_space (take n s)"
proof -
  have "s = take n s @ drop n s" by simp
  with assms show ?thesis by (metis successively_append_iff)
qed

lemma capped_length:
  assumes "cleaned = trim (collapse_ws s)" and "Suc n < length cleaned"
  shows "n \<le> length (trim (take (Suc n) cleaned))"
proof -
  let ?u = "take (Suc n) cleaned"
  have len: "length ?u = Suc n" using assms(2) by simp
  then have ne: "?u \<noteq> []" by auto
  have "cleaned \<noteq> []" using assms(2) by auto
  then have "\<not> is_space (hd cleaned)" using assms(1) trim_ends(1) by blast
  then have d: "dropWhile is_space ?u = ?u"
    by (cases cleaned) (simp_all add: dropWhile_eq_self_iff)
  have ss: "successively not_both_space ?u"
    unfolding assms(1)
    by (intro single_spaced_take single_spaced_trim collapse_ws_single_spaced)
  show ?thesis
  proof (cases "is_space (last ?u)")
    case False
    with ne have "dropWhile is_space (rev ?u) = rev ?u"
      by (simp add: dropWhile_eq_self_iff hd_rev)
    then have "trim ?u = ?u" by (simp add: trim_def d)
    with len show ?thesis by simp
  next
    case True
    have u: "?u = butlast ?u @ [last ?u]" using ne by simp
    show ?thesis
    proof (cases "butlast ?u = []")
      case True
      then have "n = 0" using len by (metis length_butlast diff_Suc_1 list.size(3))
      then show ?thesis by simp
    next
      case False
      from ss u have "successively not_both_space (butlast ?u @ [last ?u])"
        by simp
      with False have "not_both_space (last (butlast ?u)) (last ?u)"
        by (simp add: successively_append_iff)
      with True have nb: "\<not> is_space (last (butlast ?u))"
        by (simp add: not_both_space_def)
      have "rev (butlast ?u @ [last ?u]) = last ?u # rev (butlast ?u)" by simp
      with u have r: "rev ?u = last ?u # rev (butlast ?u)" by simp
      have "dropWhile is_space (rev ?u) = dropWhile is_space (rev (butlast ?u))"
        by (simp only: r dropWhile.simps True if_True)
      also have "\<dots> = rev (butlast ?u)"
        using False nb by (simp add: dropWhile_eq_self_iff hd_rev)
      finally have "trim ?u = butlast ?u" by (simp add: trim_def d)
      with len show ?thesis by simp
    qed
  qed
qed

text \<open>
  C8. The title that \<open>buildTitle\<close> returns is the specification's title: it never throws,
  it takes the first segment (in original order) whose text is longer than 5 code units,
  cleans that text, and when the cleaned text is longer than 70 code units returns its
  first 70 code units (trimmed once more) followed by \<open>...\<close>; the part before the
  ellipsis is a prefix of the cleaned text of 69 or 70 code units. Without a
  qualifying segment, or with an empty cleaned text, the title is \<open>Podcast Summary\<close>.
\<close>

theorem buildTitle_title_spec:
  "buildTitle segs = Inr (title_spec segs) \<and>
   (find qualifies segs = None \<longrightarrow> buildTitle segs = Inr (js ''Podcast Summary'')) \<and>
   (\<forall>seg cleaned.
      find qualifies segs = Some seg \<and>
      cleaned = trim (collapse_ws (field_join (seg_text seg))) \<longrightarrow>
        (cleaned = [] \<longrightarrow> buildTitle segs = Inr (js ''Podcast Summary'')) \<and>
        (cleaned \<noteq> [] \<and> length cleaned \<le> 70 \<longrightarrow> buildTitle segs = Inr cleaned) \<and>
        (70 < length cleaned \<longrightarrow>
           buildTitle segs = Inr (trim (take 70 cleaned) @ js ''...'') \<and>
           prefix (trim (take 70 cleaned)) cleaned \<and>
           69 \<le> length (trim (take 70 cleaned)) \<and>
           length (trim (take 70 cleaned)) \<le> 70))"
proof (intro conjI allI impI)
  show "buildTitle segs = Inr (title_spec segs)" by (rule buildTitle_eq)
next
  assume "find qualifies segs = None"
  then show "buildTitle segs = Inr (js ''Podcast Summary'')"
    by (simp add: buildTitle_eq title_spec_def)
next
  fix seg cleaned
  assume a: "find qualifies segs = Some seg \<and>
      cleaned = trim (collapse_ws (field_join (seg_text seg)))"
  {
    assume "cleaned = []"
    with a show "buildTitle segs = Inr (js ''Podcast Summary'')"
      by (simp add: buildTitle_eq title_spec_def)
  next
    assume "cleaned \<noteq> [] \<and> length cleaned \<le> 70"
    with a show "buildTitle segs = Inr cleaned"
      by (simp add: buildTitle_eq title_spec_def Let_def)
  next
    assume l: "70 < length cleaned"
    with a show "buildTitle segs = Inr (trim (take 70 cleaned) @ js ''...'')"
      by (auto simp: buildTitle_eq title_spec_def Let_def)
    from l have ne: "cleaned \<noteq> []" by auto
    from a ne show "prefix (trim (take 70 cleaned)) cleaned"
      using capped_prefix(1) by blast
    from a l show "69 \<le> length (trim (take 70 cleaned))"
      using capped_length [of cleaned _ 69] by simp
    from a ne show "length (trim (take 70 cleaned)) \<le> 70"
      using capped_prefix(2) by blast
  }
qed

theorem buildTitle_title_spec_witness:
  "find qualifies title_example = Some (title_example ! 2) \<and>
   70 < length (trim (collapse_ws (field_join (seg_text (title_example ! 2))))) \<and>
   buildTitle title_example =
     Inr (js ''welcome to the show where we talk about formal methods and the people...'')"
proof -
  have f: "find qualifies title_example = Some (title_example ! 2)"
    by (simp add: title_example_def qualifies_def js_def)
  have c: "trim (collapse_ws (field_join (seg_text (title_example ! 2)))) =
      js ''welcome to the show where we talk about formal methods and the people behind them''"
    unfolding title_example_def by code_simp
  have l: "70 < length (trim (collapse_ws (field_join (seg_text (title_example ! 2)))))"
    unfolding c by (simp add: js_def)
  have t: "trim (take 70 (js ''welcome to the show where we talk about formal methods and the people behind them'')) @ js ''...''
      = js ''welcome to the show where we talk about formal methods and the people...''"
    by code_simp
  from buildTitle_title_spec [of title_example] f l
  have "buildTitle title_example =
      Inr (trim (take 70 (trim (collapse_ws (field_join (seg_text (title_example ! 2)))))) @ js ''...'')"
    by blast
  with f l show ?thesis by (simp add: c t)
qed

section \<open>The key-point sampler\<close>

lemma js_space: "js '' '' = [0x20]"
  by (simp add: js_def)

lemma join_space_nonspace:
  "(\<exists>c\<in>set (join [0x20] xs). \<not> is_space c) \<longleftrightarrow> (\<exists>x\<in>set xs. \<exists>c\<in>set x. \<not> is_space c)"
  by (induction "[0x20 :: code_unit]" xs rule: join.induct) (auto simp: is_space_SP)

lemma segmentsToText_eq_Nil:
  "segmentsToText xs = [] \<longleftrightarrow> (\<forall>seg\<in>set xs. \<not> visible_text seg)"
proof -
  have "segmentsToText xs = [] \<longleftrightarrow>
      \<not> (\<exists>c\<in>set (join [0x20] (map (\<lambda>seg. field_join (seg_text seg)) xs)). \<not> is_space c)"
    by (simp add: segmentsToText_def clean_eq_Nil js_space)
  also have "\<dots> \<longleftrightarrow> (\<forall>seg\<in>set xs. \<not> visible_text seg)"
    unfolding join_space_nonspace by (auto simp: visible_text_def list_all_iff)
  finally show ?thesis .
qed

lemma stride_next:
  assumes "0 < step" and "i mod step = 0" and "i < n"
  shows "filter (\<lambda>j. j mod step = 0) [i..<n] = i # filter (\<lambda>j. j mod step = 0) [i + step..<n]"
proof -
  have skip: "j mod step \<noteq> 0" if "i < j" "j < i + step" for j
  proof -
    from that obtain d where d: "j = i + d" "0 < d" "d < step"
      by (metis add_diff_inverse_nat less_imp_add_positive nat_add_left_cancel_less not_less_iff_gr_or_eq)
    then have "j mod step = d mod step" using assms(2) by (metis add_cancel_left_left mod_add_left_eq)
    with d show ?thesis by simp
  qed
  have "filter (\<lambda>j. j mod step = 0) [Suc i..<n] = filter (\<lambda>j. j mod step = 0) [i + step..<n]"
  proof (cases "i + step \<le> n")
    case True
    then obtain m where m: "n = i + step + m" using le_Suc_ex by blast
    have "Suc i \<le> i + step" using assms(1) by simp
    then have "[Suc i..<i + step + m] = [Suc i..<i + step] @ [i + step..<i + step + m]"
      by (rule upt_add_eq_append)
    then have "[Suc i..<n] = [Suc i..<i + step] @ [i + step..<n]"
      by (simp add: m)
    moreover have "filter (\<lambda>j. j mod step = 0) [Suc i..<i + step] = []"
      using skip by (auto simp: filter_empty_conv)
    ultimately show ?thesis by simp
  next
    case False
    then have "filter (\<lambda>j. j mod step = 0) [Suc i..<n] = []"
      using skip by (auto simp: filter_empty_conv)
    with False show ?thesis by simp
  qed
  with assms show ?thesis by (simp add: upt_conv_Cons)
qed

lemma sample_loop_eq:
  assumes "i mod sample_step segs count = 0" and "length points \<le> count"
  shows "sample_loop segs count i points =
     points @ take (count - length points)
       (filter (\<lambda>point. point \<noteq> [])
          (map (window_text segs)
             (filter (\<lambda>j. j mod sample_step segs count = 0) [i..<length segs])))"
  using assms
proof (induction segs count i points rule: sample_loop.induct)
  case (1 segments count i points)
  let ?step = "sample_step segments count"
  have step: "0 < ?step" by (simp add: sample_step_def)
  show ?case
  proof (cases "i < length segments \<and> length points < count")
    case True
    let ?chunk = "segmentsToText (take 3 (drop i segments))"
    let ?points = "if ?chunk \<noteq> [] then points @ [?chunk] else points"
    have i': "(i + ?step) mod ?step = 0" using "1.prems"(1) by simp
    have l': "length ?points \<le> count" using True by simp
    have ih: "sample_loop segments count (i + ?step) ?points =
       ?points @ take (count - length ?points)
         (filter (\<lambda>point. point \<noteq> [])
            (map (window_text segments)
               (filter (\<lambda>j. j mod ?step = 0) [i + ?step..<length segments])))"
      using "1.IH" [OF True refl i' l'] .
    have unfold: "sample_loop segments count i points =
        sample_loop segments count (i + ?step) ?points"
      using True by (subst sample_loop.simps) (simp add: Let_def)
    have idx: "filter (\<lambda>j. j mod ?step = 0) [i..<length segments] =
        i # filter (\<lambda>j. j mod ?step = 0) [i + ?step..<length segments]"
      using stride_next [OF step "1.prems"(1)] True by simp
    from True obtain k where k: "count - length points = Suc k"
      by (metis Suc_diff_Suc)
    let ?rest = "filter (\<lambda>point. point \<noteq> [])
            (map (window_text segments)
               (filter (\<lambda>j. j mod ?step = 0) [i + ?step..<length segments]))"
    have w: "window_text segments i = ?chunk" by (simp add: window_text_def)
    have "?points @ take (count - length ?points) ?rest =
        points @ take (count - length points)
          (filter (\<lambda>point. point \<noteq> []) (map (window_text segments) (i # 
               filter (\<lambda>j. j mod ?step = 0) [i + ?step..<length segments])))"
    proof -
      from k have "count - Suc (length points) = k" by arith
      with k show ?thesis by (simp add: w)
    qed
    then show ?thesis
      unfolding unfold ih idx .
  next
    case False
    then have "sample_loop segments count i points = points"
      by (subst sample_loop.simps) auto
    moreover from False "1.prems"(2) have "\<not> i < length segments \<or> count - length points = 0"
      by auto
    ultimately show ?thesis by auto
  qed
qed

lemma samplePoints_eq: "samplePoints segs count = key_points_spec segs count"
proof (cases "segs = []")
  case True
  then show ?thesis
    by (simp add: samplePoints_def key_points_spec_def stride_indices_def)
next
  case False
  then show ?thesis
    using sample_loop_eq [of 0 segs count "[]"]
    by (simp add: samplePoints_def key_points_spec_def stride_indices_def sample_step_def)
qed

lemma length_stride_indices: "length (stride_indices step n) \<le> n"
  unfolding stride_indices_def using length_filter_le [of _ "[0..<n]"] by simp

lemma length_samplePoints: "length (samplePoints segs count) \<le> min count (length segs)"
proof -
  let ?ix = "stride_indices (max 1 (length segs div count)) (length segs)"
  have "length (filter (\<lambda>point. point \<noteq> []) (map (window_text segs) ?ix))
      \<le> length (map (window_text segs) ?ix)"
    by (rule length_filter_le)
  also have "\<dots> \<le> length segs" using length_stride_indices [of _ "length segs"] by simp
  finally show ?thesis by (simp add: samplePoints_eq key_points_spec_def)
qed

lemma samplePoints_nonempty: "p \<in> set (samplePoints segs count) \<Longrightarrow> p \<noteq> []"
  by (auto simp: samplePoints_eq key_points_spec_def dest: in_set_takeD)

lemma window_text_visible:
  assumes "\<forall>seg\<in>set segs. visible_text seg" and "i < length segs"
  shows "window_text segs i \<noteq> []"
proof -
  from assms(2) have "segs ! i \<in> set (take 3 (drop i segs))"
    by (metis Cons_nth_drop_Suc list.set_intros(1) take_Suc_Cons numeral_3_eq_3)
  moreover have "visible_text (segs ! i)" using assms by simp
  ultimately show ?thesis
    unfolding window_text_def segmentsToText_eq_Nil by blast
qed

lemma samplePoints_visible:
  assumes "\<forall>seg\<in>set segs. visible_text seg"
  shows "samplePoints segs count =
     take count (map (window_text segs)
        (stride_indices (max 1 (length segs div count)) (length segs)))"
proof -
  have "\<forall>i\<in>set (stride_indices (max 1 (length segs div count)) (length segs)). window_text segs i \<noteq> []"
    using window_text_visible [OF assms] by (auto simp: stride_indices_def)
  then have "filter (\<lambda>point. point \<noteq> [])
      (map (window_text segs) (stride_indices (max 1 (length segs div count)) (length segs)))
     = map (window_text segs) (stride_indices (max 1 (length segs div count)) (length segs))"
    by (auto simp: filter_id_conv)
  then show ?thesis by (simp add: samplePoints_eq key_points_spec_def)
qed

lemma stride_indices_20: "stride_indices (max 1 (20 div 5)) 20 = [0, 4, 8, 12, 16]"
  by code_simp


text \<open>
  C4 (as amended). \<open>samplePoints segments 5\<close> is the specification's list of key points:
  it walks the indices \<open>0, step, 2 step, ...\<close> with \<open>step = max 1 (n div 5)\<close>, takes at
  each the cleaned text of the window of 3 segments starting there, skips the windows
  that clean to the empty string and stops at 5 points or at the end of the list. It
  never holds more than 5 points and never an empty one. 20 segments whose texts each
  hold a code unit that is not whitespace give exactly 5 points; 2 segments give fewer
  than 5.
\<close>

theorem samplePoints_key_points:
  "samplePoints segs 5 = key_points_spec segs 5 \<and>
   length (samplePoints segs 5) \<le> 5 \<and>
   (\<forall>p\<in>set (samplePoints segs 5). p \<noteq> []) \<and>
   (length segs = 20 \<and> (\<forall>seg\<in>set segs. visible_text seg) \<longrightarrow>
      length (samplePoints segs 5) = 5) \<and>
   (length segs = 2 \<longrightarrow> length (samplePoints segs 5) < 5)"
proof (intro conjI impI ballI)
  show "samplePoints segs 5 = key_points_spec segs 5" by (rule samplePoints_eq)
  show "length (samplePoints segs 5) \<le> 5" using length_samplePoints [of segs 5] by simp
  show "p \<noteq> []" if "p \<in> set (samplePoints segs 5)" for p
    using that by (rule samplePoints_nonempty)
  show "length (samplePoints segs 5) = 5"
    if "length segs = 20 \<and> (\<forall>seg\<in>set segs. visible_text seg)"
  proof -
    from that have "samplePoints segs 5 =
        take 5 (map (window_text segs) (stride_indices (max 1 (20 div 5)) 20))"
      using samplePoints_visible [of segs 5] by simp
    then show ?thesis unfolding stride_indices_20 by simp
  qed
  show "length (samplePoints segs 5) < 5" if "length segs = 2"
    using that length_samplePoints [of segs 5] by simp
qed

theorem samplePoints_key_points_witness:
  "length (word_segments 20) = 20 \<and> list_all visible_text (word_segments 20) \<and>
   length (samplePoints (word_segments 20) 5) = 5 \<and>
   length (word_segments 2) = 2 \<and> length (samplePoints (word_segments 2) 5) < 5 \<and>
   samplePoints (word_segments 2) 5 = key_points_spec (word_segments 2) 5"
proof -
  have v: "visible_text \<lparr>seg_text = Text (js ''word'')\<rparr>" by code_simp
  then have a: "\<forall>seg\<in>set (word_segments 20). visible_text seg"
    by (simp add: word_segments_def)
  have l: "length (word_segments 20) = 20" "length (word_segments 2) = 2"
    by (simp_all add: word_segments_def)
  from a have la: "list_all visible_text (word_segments 20)" by (simp add: list_all_iff)
  from samplePoints_key_points [of "word_segments 20"] l(1) a
  have 1: "length (samplePoints (word_segments 20) 5) = 5" by blast
  from samplePoints_key_points [of "word_segments 2"] l(2)
  have 2: "length (samplePoints (word_segments 2) 5) < 5"
    and 3: "samplePoints (word_segments 2) 5 = key_points_spec (word_segments 2) 5" by blast+
  from l la 1 2 3 show ?thesis by blast
qed

theorem samplePoints_blank_counterexample:
  "length blank_segments = 20 \<and> list_all nonempty_text blank_segments \<and>
   samplePoints blank_segments 5 = [] \<and> length (samplePoints blank_segments 5) \<noteq> 5"
  unfolding blank_segments_def by code_simp

section \<open>The structure of the rule-based article\<close>

lemma split_on_not_Nil: "split_on d s \<noteq> []"
  by (induction s) (auto split: list.splits)

lemma split_on_append: "split_on d (x @ d # y) = split_on d x @ split_on d y"
proof (induction x)
  case Nil
  then show ?case by simp
next
  case (Cons c x)
  obtain l ls where "split_on d x = l # ls"
    using split_on_not_Nil [of d x] by (cases "split_on d x") auto
  with Cons show ?case by simp
qed

lemma split_on_absent: "d \<notin> set s \<Longrightarrow> split_on d s = [s]"
  by (induction s) auto

lemma split_on_join:
  "ls \<noteq> [] \<Longrightarrow> split_on d (join [d] ls) = concat (map (split_on d) ls)"
  by (induction "[d]" ls rule: join.induct) (simp_all add: split_on_append)

lemma split_on_join_absent:
  assumes "ls \<noteq> []" and "\<forall>l\<in>set ls. d \<notin> set l"
  shows "split_on d (join [d] ls) = ls"
proof -
  from assms(2) have "concat (map (split_on d) ls) = ls"
    by (induction ls) (simp_all add: split_on_absent)
  with assms(1) show ?thesis by (simp add: split_on_join)
qed

lemma newline_notin_segmentsToText: "0xA \<notin> set (segmentsToText segs)"
  unfolding segmentsToText_def by (rule newline_notin_clean)

lemma newline_notin_title: "0xA \<notin> set (title_spec segs)"
proof -
  have d: "0xA \<notin> set (js ''Podcast Summary'')" "0xA \<notin> set (js ''...'')"
    by (simp_all add: js_def)
  have t: "0xA \<notin> set (trim (take 70 (trim (collapse_ws s))))" for s
    using newline_notin_clean [of s] set_trim [of "take 70 (trim (collapse_ws s))"]
      set_take_subset [of 70 "trim (collapse_ws s)"] by blast
  show ?thesis
    unfolding title_spec_def Let_def
    using d t newline_notin_clean by (auto split: option.splits)
qed

lemma newline_notin_points:
  assumes "p \<in> set (key_points_spec segs count)"
  shows "0xA \<notin> set p"
proof -
  from assms obtain i where "p = window_text segs i"
    by (auto simp: key_points_spec_def dest!: in_set_takeD)
  then show ?thesis by (simp add: window_text_def newline_notin_segmentsToText)
qed

lemma split_bullets:
  "split_on 0xA (join [0xA] (map (\<lambda>point. js ''- '' @ point) (key_points_spec segs count)))
     = bullet_lines (key_points_spec segs count)"
proof (cases "key_points_spec segs count = []")
  case True
  then show ?thesis by (simp add: bullet_lines_def)
next
  case False
  have "0xA \<notin> set (js ''- '')" by (simp add: js_def)
  then have "\<forall>l\<in>set (map (\<lambda>point. js ''- '' @ point) (key_points_spec segs count)). 0xA \<notin> set l"
    using newline_notin_points by auto
  with False show ?thesis
    by (simp add: split_on_join_absent bullet_lines_def)
qed

lemma ruleBasedArticle_lines:
  assumes "0xA \<notin> set styleDescriptor" and "0xA \<notin> set lengthSpec"
  shows "\<exists>article. ruleBasedArticle segs styleDescriptor lengthSpec trunc = Inr article \<and>
           split_lines article = article_lines segs styleDescriptor lengthSpec trunc"
proof -
  have lit: "0xA \<notin> set (js ''# '')" "0xA \<notin> set (js ''## Overview'')"
    "0xA \<notin> set (js ''Style focus: '')" "0xA \<notin> set (js ''.'')"
    "0xA \<notin> set (js ''Style focus: neutral summary.'')" "0xA \<notin> set (js '' '')"
    "0xA \<notin> set (js ''Target length: '')" "0xA \<notin> set (js ''## Key Points'')"
    "0xA \<notin> set (js ''## Closing'')"
    "0xA \<notin> set (js ''The discussion concludes with a wrap-up of key takeaways.'')"
    "0xA \<notin> set (js ''## Source Notes'')"
    "0xA \<notin> set (js ''Note: transcript truncated to fit context.'')"
    "0xA \<notin> set (js ''Note: transcript fully included for this summary.'')"
    "0xA \<notin> set (js '' This article is generated from the transcript and may omit details.'')"
    by (simp_all add: js_def)
  define items where "items =
     [js ''# '' @ title_spec segs,
      [],
      js ''## Overview'',
      (if styleDescriptor \<noteq> [] then js ''Style focus: '' @ styleDescriptor @ js ''.''
       else js ''Style focus: neutral summary.'') @ js '' '' @ segmentsToText (take 6 segs),
      [],
      js ''Target length: '' @ lengthSpec @ js ''.'',
      [],
      js ''## Key Points'',
      join [0xA] (map (\<lambda>point. js ''- '' @ point) (key_points_spec segs 5)),
      [],
      js ''## Closing'',
      (if segmentsToText (drop (length segs - 6) segs) \<noteq> []
       then segmentsToText (drop (length segs - 6) segs)
       else js ''The discussion concludes with a wrap-up of key takeaways.''),
      [],
      js ''## Source Notes'',
      (if trunc then js ''Note: transcript truncated to fit context.''
       else js ''Note: transcript fully included for this summary.'') @
      js '' This article is generated from the transcript and may omit details.'']"
  have a: "ruleBasedArticle segs styleDescriptor lengthSpec trunc = Inr (join [0xA] items)"
    unfolding items_def ruleBasedArticle_def buildTitle_eq newline_def Let_def samplePoints_eq
    by (simp del: join.simps)
  have b: "split_on 0xA (join [0xA] items) = concat (map (split_on 0xA) items)"
    by (rule split_on_join) (simp add: items_def)
  have c: "concat (map (split_on 0xA) items) =
      article_lines segs styleDescriptor lengthSpec trunc"
    unfolding items_def article_lines_def
    by (simp add: split_on_absent split_bullets lit assms newline_notin_title
        newline_notin_segmentsToText del: join.simps)
  show ?thesis
    using a b c by (simp add: split_lines_def)
qed


lemma bullet_lines_length: "0 < length (bullet_lines points)"
  by (simp add: bullet_lines_def)

lemma article_lines_positions:
  "length (article_lines segs sd ls tr) = 14 + length (bullet_lines (key_points_spec segs 5)) \<and>
   prefix (js ''# '') (article_lines segs sd ls tr ! 0) \<and>
   article_lines segs sd ls tr ! 2 = js ''## Overview'' \<and>
   prefix (js ''Style focus: '') (article_lines segs sd ls tr ! 3) \<and>
   article_lines segs sd ls tr ! 5 = js ''Target length: '' @ ls @ js ''.'' \<and>
   article_lines segs sd ls tr ! 7 = js ''## Key Points'' \<and>
   take (length (bullet_lines (key_points_spec segs 5))) (drop 8 (article_lines segs sd ls tr))
     = bullet_lines (key_points_spec segs 5) \<and>
   article_lines segs sd ls tr ! (9 + length (bullet_lines (key_points_spec segs 5)))
     = js ''## Closing'' \<and>
   article_lines segs sd ls tr ! (12 + length (bullet_lines (key_points_spec segs 5)))
     = js ''## Source Notes''"
proof -
  have p: "js ''Style focus: neutral summary.'' = js ''Style focus: '' @ js ''neutral summary.''"
    by (simp add: js_def)
  show ?thesis
    unfolding article_lines_def
    by (simp add: nth_append p)
qed

lemma article_lines_empty:
  "key_points_spec [] 5 = [] \<and>
   article_lines [] sd ls tr =
     [js ''# '' @ js ''Podcast Summary'',
      [],
      js ''## Overview'',
      (if sd \<noteq> [] then js ''Style focus: '' @ sd @ js ''.''
       else js ''Style focus: neutral summary.'') @ js '' '',
      [],
      js ''Target length: '' @ ls @ js ''.'',
      [],
      js ''## Key Points'',
      [],
      [],
      js ''## Closing'',
      js ''The discussion concludes with a wrap-up of key takeaways.'',
      [],
      js ''## Source Notes'',
      (if tr then js ''Note: transcript truncated to fit context.''
       else js ''Note: transcript fully included for this summary.'') @
      js '' This article is generated from the transcript and may omit details.'']"
proof -
  have k: "key_points_spec [] 5 = []"
    by (simp add: key_points_spec_def stride_indices_def)
  have t: "segmentsToText [] = []"
    by (simp add: segmentsToText_eq_Nil)
  have ti: "title_spec [] = js ''Podcast Summary''"
    by (simp add: title_spec_def)
  show ?thesis
    unfolding article_lines_def bullet_lines_def by (simp add: k t ti)
qed

text \<open>
  C3. For every list of segments (and a style descriptor and length specification
  without a line break, as the article generator passes them), \<open>ruleBasedArticle\<close>
  returns a text, and its lines are exactly the specification's: the title heading
  \<open># title\<close>, an empty line, \<open>## Overview\<close> and its body, an empty line, the
  \<open>Target length\<close> statement, an empty line, \<open>## Key Points\<close> and one bullet per key
  point, an empty line, \<open>## Closing\<close> and its body, an empty line, \<open>## Source Notes\<close>
  and its note, in this order. Without segments the Key Points list is empty (one
  empty line stands in its place) and the Closing body is the default sentence.
\<close>

theorem ruleBasedArticle_sections:
  assumes "0xA \<notin> set sd" and "0xA \<notin> set ls"
  shows
  "(\<exists>article. ruleBasedArticle segs sd ls tr = Inr article \<and>
        split_lines article = article_lines segs sd ls tr) \<and>
   length (article_lines segs sd ls tr) = 14 + length (bullet_lines (key_points_spec segs 5)) \<and>
   prefix (js ''# '') (article_lines segs sd ls tr ! 0) \<and>
   article_lines segs sd ls tr ! 2 = js ''## Overview'' \<and>
   prefix (js ''Style focus: '') (article_lines segs sd ls tr ! 3) \<and>
   article_lines segs sd ls tr ! 5 = js ''Target length: '' @ ls @ js ''.'' \<and>
   article_lines segs sd ls tr ! 7 = js ''## Key Points'' \<and>
   take (length (bullet_lines (key_points_spec segs 5))) (drop 8 (article_lines segs sd ls tr))
     = bullet_lines (samplePoints segs 5) \<and>
   article_lines segs sd ls tr ! (9 + length (bullet_lines (key_points_spec segs 5)))
     = js ''## Closing'' \<and>
   article_lines segs sd ls tr ! (12 + length (bullet_lines (key_points_spec segs 5)))
     = js ''## Source Notes'' \<and>
   (segs = [] \<longrightarrow>
      samplePoints segs 5 = [] \<and>
      article_lines segs sd ls tr =
        [js ''# '' @ js ''Podcast Summary'',
         [],
         js ''## Overview'',
         (if sd \<noteq> [] then js ''Style focus: '' @ sd @ js ''.''
          else js ''Style focus: neutral summary.'') @ js '' '',
         [],
         js ''Target length: '' @ ls @ js ''.'',
         [],
         js ''## Key Points'',
         [],
         [],
         js ''## Closing'',
         js ''The discussion concludes with a wrap-up of key takeaways.'',
         [],
         js ''## Source Notes'',
         (if tr then js ''Note: transcript truncated to fit context.''
          else js ''Note: transcript fully included for this summary.'') @
         js '' This article is generated from the transcript and may omit details.''])"
  using ruleBasedArticle_lines [OF assms, of segs tr]
    article_lines_positions [of segs sd ls tr] article_lines_empty [of sd ls tr]
  by (simp only: samplePoints_eq) blast

theorem ruleBasedArticle_sections_witness:
  "0xA \<notin> set (js ''casual tone'') \<and> 0xA \<notin> set (js ''600-900 words'') \<and>
   map_sum id split_lines
     (ruleBasedArticle (word_segments 2) (js ''casual tone'') (js ''600-900 words'') False) =
     Inr [js ''# Podcast Summary'',
          [],
          js ''## Overview'',
          js ''Style focus: casual tone. word word'',
          [],
          js ''Target length: 600-900 words.'',
          [],
          js ''## Key Points'',
          js ''- word word'',
          js ''- word'',
          [],
          js ''## Closing'',
          js ''word word'',
          [],
          js ''## Source Notes'',
          js ''Note: transcript fully included for this summary. This article is generated from the transcript and may omit details.''] \<and>
   map_sum id split_lines (ruleBasedArticle [] [] (js ''600-900 words'') True) =
     Inr [js ''# Podcast Summary'',
          [],
          js ''## Overview'',
          js ''Style focus: neutral summary. '',
          [],
          js ''Target length: 600-900 words.'',
          [],
          js ''## Key Points'',
          [],
          [],
          js ''## Closing'',
          js ''The discussion concludes with a wrap-up of key takeaways.'',
          [],
          js ''## Source Notes'',
          js ''Note: transcript truncated to fit context. This article is generated from the transcript and may omit details.'']"
proof -
  have n: "0xA \<notin> set (js ''casual tone'')" "0xA \<notin> set (js ''600-900 words'')"
    "0xA \<notin> set ([] :: jsstring)"
    by (simp_all add: js_def)
  from ruleBasedArticle_sections [OF n(1) n(2), of "word_segments 2" False]
  obtain a where a: "ruleBasedArticle (word_segments 2) (js ''casual tone'') (js ''600-900 words'') False = Inr a"
    "split_lines a = article_lines (word_segments 2) (js ''casual tone'') (js ''600-900 words'') False"
    by blast
  from ruleBasedArticle_sections [OF n(3) n(2), of "[]" True]
  obtain b where b: "ruleBasedArticle [] [] (js ''600-900 words'') True = Inr b"
    "split_lines b = article_lines [] [] (js ''600-900 words'') True"
    by blast
  have la: "article_lines (word_segments 2) (js ''casual tone'') (js ''600-900 words'') False =
     [js ''# Podcast Summary'',
          [],
          js ''## Overview'',
          js ''Style focus: casual tone. word word'',
          [],
          js ''Target length: 600-900 words.'',
          [],
          js ''## Key Points'',
          js ''- word word'',
          js ''- word'',
          [],
          js ''## Closing'',
          js ''word word'',
          [],
          js ''## Source Notes'',
          js ''Note: transcript fully included for this summary. This article is generated from the transcript and may omit details.'']"
    unfolding word_segments_def by code_simp
  have lb: "article_lines [] [] (js ''600-900 words'') True =
     [js ''# Podcast Summary'',
          [],
          js ''## Overview'',
          js ''Style focus: neutral summary. '',
          [],
          js ''Target length: 600-900 words.'',
          [],
          js ''## Key Points'',
          [],
          [],
          js ''## Closing'',
          js ''The discussion concludes with a wrap-up of key takeaways.'',
          [],
          js ''## Source Notes'',
          js ''Note: transcript truncated to fit context. This article is generated from the transcript and may omit details.'']"
    by code_simp
  show ?thesis
    using n(1,2) by (simp add: a b la lb)
qed

section \<open>The style descriptor\<close>

lemma clampText_JStr: "clampText (JStr s) cap = Inr (clamped cap s)"
  by (cases "s = []") (simp_all add: clampText_def clamped_def trim_def)

lemma length_clamped: "length (clamped cap s) \<le> cap"
  by (simp add: clamped_def)

lemma clamped_prefix: "prefix (clamped cap s) (trim (collapse_ws s))"
  by (simp add: clamped_def take_is_prefix)

lemma newline_notin_clamped: "0xA \<notin> set (clamped cap s)"
  unfolding clamped_def using newline_notin_clean [of s] by (auto dest: in_set_takeD)

lemma buildStyleDescriptor_JStr:
  "buildStyleDescriptor (JStr p) (JStr d) (JStr l) = Inr (descriptor_spec p d l)"
  by (auto simp: buildStyleDescriptor_def clampText_JStr descriptor_spec_def
      STYLE_LIMIT_def DETAIL_LIMIT_def)

lemma length_descriptor_spec: "length (descriptor_spec p d l) \<le> 803"
proof -
  have "length (js '' | '') = 3" "length (js ''Output language: '') = 17"
    by (simp_all add: js_def)
  then show ?thesis
    using length_clamped [of 240 p] length_clamped [of 500 d] length_clamped [of 40 l]
    by (auto simp: descriptor_spec_def)
qed

text \<open>
  C7. For all strings \<open>stylePreset\<close>, \<open>styleDetail\<close> and \<open>language\<close>, of any length,
  \<open>clampText\<close> whitespace-normalizes a field and then cuts it to its cap, and
  \<open>buildStyleDescriptor\<close> returns (it does not throw) the non-empty clamped fields
  joined by \<open>" | "\<close>, without the language clause when the clamped language is empty
  or \<open>auto\<close>. The clamped preset, detail and language are at most 240, 500 and 40 code
  units long, each a prefix of its normalized field, and the descriptor at most 803.
\<close>

theorem buildStyleDescriptor_clamped:
  "clampText (JStr s) cap = Inr (take cap (trim (collapse_ws s))) \<and>
   buildStyleDescriptor (JStr p) (JStr d) (JStr l) = Inr (descriptor_spec p d l) \<and>
   length (clamped 240 p) \<le> 240 \<and> length (clamped 500 d) \<le> 500 \<and>
   length (clamped 40 l) \<le> 40 \<and>
   prefix (clamped 240 p) (trim (collapse_ws p)) \<and>
   prefix (clamped 500 d) (trim (collapse_ws d)) \<and>
   prefix (clamped 40 l) (trim (collapse_ws l)) \<and>
   length (descriptor_spec p d l) \<le> 803"
  using clampText_JStr [of s cap] buildStyleDescriptor_JStr [of p d l]
    length_clamped clamped_prefix length_descriptor_spec [of p d l]
  by (simp add: clamped_def)

theorem buildStyleDescriptor_clamped_witness:
  "buildStyleDescriptor (JStr (js ''  casual   tone '')) (JStr (replicate 600 0x61))
       (JStr (js ''French'')) =
     Inr (js ''casual tone | '' @ replicate 500 0x61 @ js '' | Output language: French'') \<and>
   buildStyleDescriptor (JStr (js ''casual'')) (JStr []) (JStr (js '' auto '')) =
     Inr (js ''casual'')"
proof -
  have c1: "clamped 240 (js ''  casual   tone '') = js ''casual tone''" by code_simp
  have ns: "\<not> is_space 0x61" by (simp add: is_space_def)
  have cw: "collapse_ws (replicate n 0x61) = replicate n 0x61" for n
    by (induction n) (simp_all add: ns)
  have "trim (replicate 600 0x61) = replicate 600 0x61"
    by (rule trim_no_change) (simp_all add: ns hd_replicate last_replicate)
  then have c2: "clamped 500 (replicate 600 0x61) = replicate 500 0x61"
    by (simp add: clamped_def cw)
  have c3: "clamped 40 (js ''French'') = js ''French''" by code_simp
  have c4: "clamped 240 (js ''casual'') = js ''casual''" "clamped 500 [] = []"
    "clamped 40 (js '' auto '') = js ''auto''"
    by code_simp+
  have e: "js ''French'' \<noteq> []" "js ''French'' \<noteq> js ''auto''" "js ''casual tone'' \<noteq> []"
    "js ''casual'' \<noteq> []"
    by (simp_all add: js_def)
  have j: "js ''casual tone'' @ js '' | '' @ replicate 500 0x61 @ js '' | '' @
      js ''Output language: '' @ js ''French'' =
      js ''casual tone | '' @ replicate 500 0x61 @ js '' | Output language: French''"
    by (simp add: js_def)
  from buildStyleDescriptor_clamped [of _ _ "js ''  casual   tone ''" "replicate 600 0x61" "js ''French''"]
  have 1: "buildStyleDescriptor (JStr (js ''  casual   tone '')) (JStr (replicate 600 0x61))
       (JStr (js ''French'')) =
      Inr (descriptor_spec (js ''  casual   tone '') (replicate 600 0x61) (js ''French''))"
    by blast
  from buildStyleDescriptor_clamped [of _ _ "js ''casual''" "[]" "js '' auto ''"]
  have 2: "buildStyleDescriptor (JStr (js ''casual'')) (JStr []) (JStr (js '' auto '')) =
      Inr (descriptor_spec (js ''casual'') [] (js '' auto ''))"
    by blast
  show ?thesis
    unfolding 1 2 descriptor_spec_def c1 c2 c3 c4
    using e j by simp
qed

section \<open>Degenerate inputs\<close>

lemma field_join_blank_missing:
  "map (\<lambda>segment. field_join (seg_text segment)) (map blank_missing segs) =
   map (\<lambda>segment. field_join (seg_text segment)) segs"
  by (simp add: blank_missing_def)

lemma normalizeTranscript_blank:
  "normalizeTranscript (map blank_missing segs) = normalizeTranscript segs"
  by (simp only: normalizeTranscript_def field_join_blank_missing)

lemma segmentsToText_blank:
  "segmentsToText (map blank_missing segs) = segmentsToText segs"
  by (simp only: segmentsToText_def field_join_blank_missing)

lemma window_text_blank: "window_text (map blank_missing segs) i = window_text segs i"
proof -
  have "take 3 (drop i (map blank_missing segs)) = map blank_missing (take 3 (drop i segs))"
    by (simp add: drop_map take_map)
  then show ?thesis
    unfolding window_text_def by (simp only: segmentsToText_blank)
qed

lemma samplePoints_blank:
  "samplePoints (map blank_missing segs) count = samplePoints segs count"
proof -
  have "window_text (map blank_missing segs) = window_text segs"
    by (rule ext) (rule window_text_blank)
  then show ?thesis
    by (simp add: samplePoints_eq key_points_spec_def)
qed

lemma qualifies_blank: "qualifies (blank_missing seg) = qualifies seg"
  by (cases "seg_text seg") (simp_all add: qualifies_def blank_missing_def)

lemma title_spec_blank: "title_spec (map blank_missing segs) = title_spec segs"
proof -
  have "find qualifies (map blank_missing segs) = map_option blank_missing (find qualifies segs)"
    by (induction segs) (simp_all add: qualifies_blank)
  moreover have "field_join (seg_text (blank_missing seg)) = field_join (seg_text seg)" for seg
    by (simp add: blank_missing_def)
  ultimately show ?thesis
    by (simp add: title_spec_def split: option.splits)
qed

lemma clampText_throws: "clampText v cap = Inl e \<longleftrightarrow> v = JObject None \<and> e = TypeError"
  by (cases v rule: to_string.cases) (auto simp: clampText_def)

lemma clampText_falsy: "\<not> to_boolean v \<Longrightarrow> clampText v cap = Inr []"
  by (simp add: clampText_def)

lemma clampText_converts:
  "to_string v = Inr s \<Longrightarrow> clampText v cap = Inr (if to_boolean v then clamped cap s else [])"
  by (simp add: clampText_def clamped_def)

lemma buildStyleDescriptor_throws:
  "(\<exists>e. buildStyleDescriptor p d l = Inl e) \<longleftrightarrow>
     p = JObject None \<or> d = JObject None \<or> l = JObject None"
proof -
  have c: "(\<exists>e. clampText v cap = Inl e) \<longleftrightarrow> v = JObject None" for v cap
    using clampText_throws by blast
  show ?thesis
    unfolding buildStyleDescriptor_def
    using c [of p STYLE_LIMIT] c [of d DETAIL_LIMIT] c [of l 40]
    by (auto split: sum.splits)
qed

text \<open>
  C10 (as amended). Segments whose text is missing, \<open>null\<close> or \<open>undefined\<close> are read
  as segments with the empty text: \<open>normalizeTranscript\<close>, \<open>segmentsToText\<close> and
  \<open>samplePoints\<close> give what they give on the list with those texts replaced by \<open>""\<close>,
  and \<open>buildTitle\<close> returns (it does not throw) the same title on both lists. For a
  style value that is not a string, \<open>clampText\<close> returns \<open>""\<close> when the value is falsy
  and the clamped \<open>String(value)\<close> when that conversion succeeds; it throws (a
  TypeError) exactly for an object whose conversion to a string throws, and
  \<open>buildStyleDescriptor\<close> throws exactly when one of its three arguments is such an
  object.
\<close>

theorem degenerate_inputs:
  "normalizeTranscript segs = normalizeTranscript (map blank_missing segs) \<and>
   segmentsToText segs = segmentsToText (map blank_missing segs) \<and>
   samplePoints segs count = samplePoints (map blank_missing segs) count \<and>
   (\<exists>title. buildTitle segs = Inr title \<and> buildTitle (map blank_missing segs) = Inr title) \<and>
   (\<not> to_boolean v \<longrightarrow> clampText v cap = Inr []) \<and>
   (\<forall>s. to_string v = Inr s \<longrightarrow>
        clampText v cap = Inr (if to_boolean v then take cap (trim (collapse_ws s)) else [])) \<and>
   ((\<exists>e. clampText v cap = Inl e) \<longleftrightarrow> v = JObject None) \<and>
   ((\<exists>e. buildStyleDescriptor p d l = Inl e) \<longleftrightarrow>
        p = JObject None \<or> d = JObject None \<or> l = JObject None)"
proof -
  have "(\<exists>e. clampText v cap = Inl e) \<longleftrightarrow> v = JObject None"
    using clampText_throws by blast
  then show ?thesis
    using buildStyleDescriptor_throws [of p d l] clampText_falsy [of v cap] clampText_converts [of v _ cap]
    by (simp add: normalizeTranscript_blank segmentsToText_blank samplePoints_blank
        buildTitle_eq title_spec_blank clamped_def)
qed

theorem degenerate_inputs_witness:
  "normalizeTranscript degenerate_segments = js ''hello there world'' \<and>
   normalizeTranscript (map blank_missing degenerate_segments) = js ''hello there world'' \<and>
   buildTitle degenerate_segments = Inr (js ''hello there'') \<and>
   clampText JNull 240 = Inr [] \<and>
   to_string (JNumber True (js ''12'')) = Inr (js ''12'') \<and>
   clampText (JNumber True (js ''12'')) 240 = Inr (js ''12'') \<and>
   (\<exists>e. clampText (JObject None) 240 = Inl e) \<and>
   (\<exists>e. buildStyleDescriptor (JStr (js ''casual'')) (JObject None) JUndefined = Inl e)"
proof -
  note t = degenerate_inputs [of degenerate_segments 5 "JNumber True (js ''12'')" 240
      "JStr (js ''casual'')" "JObject None" JUndefined]
  note u = degenerate_inputs [of degenerate_segments 5 JNull 240
      "JObject None" "JObject None" JUndefined]
  note w = degenerate_inputs [of degenerate_segments 5 "JObject None" 240
      "JObject None" "JObject None" JUndefined]
  have n: "normalizeTranscript degenerate_segments = js ''hello there world''"
    unfolding degenerate_segments_def by code_simp
  have b: "buildTitle degenerate_segments = Inr (js ''hello there'')"
    unfolding degenerate_segments_def by code_simp
  have c: "take 240 (trim (collapse_ws (js ''12''))) = js ''12''" by code_simp
  from t n have 1: "normalizeTranscript (map blank_missing degenerate_segments) = js ''hello there world''"
    by simp
  from u have 2: "clampText JNull 240 = Inr []" by simp
  from t c have 3: "clampText (JNumber True (js ''12'')) 240 = Inr (js ''12'')" by simp
  from w have 4: "\<exists>e. clampText (JObject None) 240 = Inl e" by blast
  from t have 5: "\<exists>e. buildStyleDescriptor (JStr (js ''casual'')) (JObject None) JUndefined = Inl e"
    by blast
  from n 1 b 2 3 4 5 show ?thesis by simp
qed

theorem clampText_object_counterexample:
  "clampText (JObject None) 240 = Inl TypeError \<and>
   buildStyleDescriptor (JObject None) (JStr (js ''detail'')) (JStr (js ''auto'')) = Inl TypeError"
  by (simp add: clampText_def buildStyleDescriptor_def)

section \<open>The article generator\<close>

lemma ruleBasedArticle_returns:
  "\<exists>article. ruleBasedArticle segs sd ls tr = Inr article"
  by (simp add: ruleBasedArticle_def buildTitle_eq Let_def)

lemma generateWithOpenAI_events:
  "snd (generateWithOpenAI client tx sd ls tr) =
     [ExternalRequest openai_system_prompt (openai_user_prompt tx sd ls tr)]"
  by (simp add: generateWithOpenAI_def Let_def)

lemma generateWithOpenAI_result:
  "fst (generateWithOpenAI client tx sd ls tr) =
     (case client openai_system_prompt (openai_user_prompt tx sd ls tr) of
        Inl e \<Rightarrow> Inl e
      | Inr None \<Rightarrow> Inr []
      | Inr (Some s) \<Rightarrow> Inr (trim s))"
  by (simp add: generateWithOpenAI_def Let_def trim_def split: sum.splits option.splits)

lemma generateArticle_cases:
  assumes "buildStyleDescriptor (stylePreset req) (styleDetail req) (language req) = Inr sd"
    and "lengthSpecFromChoice lower (length_choice req) = Inr ls"
    and "ruleBasedArticle (segments req) sd ls (truncated req) = Inr article"
  shows "generateArticle lower env client req =
     (if credential_configured env
      then (case fst (generateWithOpenAI client (transcript req) sd ls (truncated req)) of
              Inr t \<Rightarrow>
                (if t \<noteq> []
                 then (Inr \<lparr>gr_text = t, gr_mode = js ''openai''\<rparr>,
                       [ExternalRequest openai_system_prompt
                          (openai_user_prompt (transcript req) sd ls (truncated req))])
                 else (Inr \<lparr>gr_text = article, gr_mode = js ''fallback''\<rparr>,
                       [ExternalRequest openai_system_prompt
                          (openai_user_prompt (transcript req) sd ls (truncated req))]))
            | Inl e \<Rightarrow>
                (Inr \<lparr>gr_text = article, gr_mode = js ''fallback''\<rparr>,
                 [ExternalRequest openai_system_prompt
                    (openai_user_prompt (transcript req) sd ls (truncated req)),
                  ErrorLogged (js ''OpenAI generation failed:'')]))
      else (Inr \<lparr>gr_text = article, gr_mode = js ''fallback''\<rparr>, []))"
proof -
  obtain res evs where g: "generateWithOpenAI client (transcript req) sd ls (truncated req) = (res, evs)"
    by (cases "generateWithOpenAI client (transcript req) sd ls (truncated req)")
  with generateWithOpenAI_events [of client "transcript req" sd ls "truncated req"]
  have evs: "evs = [ExternalRequest openai_system_prompt
                          (openai_user_prompt (transcript req) sd ls (truncated req))]"
    by simp
  show ?thesis
    using assms g evs
    by (cases res) (simp_all add: generateArticle_def fallback_result_def)
qed

lemma mode_values_differ: "js ''openai'' \<noteq> js ''fallback''"
  by (simp add: js_def)


text \<open>
  C2. For every request whose style descriptor and length specification are built
  without an exception: with a credential configured, the dispatcher sends exactly one
  request to the external model, before anything else, and when that attempt throws or
  answers with a missing, empty or whitespace-only text, it returns the rule-based
  article with mode \<open>fallback\<close> and no error; without a credential it returns the
  rule-based article with mode \<open>fallback\<close> and sends no request.
\<close>

theorem generateArticle_fallback:
  assumes "buildStyleDescriptor (stylePreset req) (styleDetail req) (language req) = Inr sd"
    and "lengthSpecFromChoice lower (length_choice req) = Inr ls"
  shows
  "\<exists>article. ruleBasedArticle (segments req) sd ls (truncated req) = Inr article \<and>
     (credential_configured env \<longrightarrow>
        (\<exists>rest. snd (generateArticle lower env client req) =
            ExternalRequest openai_system_prompt
              (openai_user_prompt (transcript req) sd ls (truncated req)) # rest \<and>
            (rest = [] \<or> rest = [ErrorLogged (js ''OpenAI generation failed:'')])) \<and>
        ((\<exists>e. client openai_system_prompt
                (openai_user_prompt (transcript req) sd ls (truncated req)) = Inl e) \<or>
         client openai_system_prompt
                (openai_user_prompt (transcript req) sd ls (truncated req)) = Inr None \<or>
         (\<exists>s. client openai_system_prompt
                (openai_user_prompt (transcript req) sd ls (truncated req)) = Inr (Some s) \<and>
              list_all is_space s) \<longrightarrow>
           fst (generateArticle lower env client req) =
             Inr \<lparr>gr_text = article, gr_mode = js ''fallback''\<rparr>)) \<and>
     (\<not> credential_configured env \<longrightarrow>
        generateArticle lower env client req =
          (Inr \<lparr>gr_text = article, gr_mode = js ''fallback''\<rparr>, []))"
proof -
  obtain article where a: "ruleBasedArticle (segments req) sd ls (truncated req) = Inr article"
    using ruleBasedArticle_returns by blast
  note c = generateArticle_cases [OF assms a, of env client]
  let ?answer = "client openai_system_prompt
      (openai_user_prompt (transcript req) sd ls (truncated req))"
  have blank: "trim s = []" if "list_all is_space s" for s
    using that by (simp add: trim_eq_Nil list_all_iff)
  have "credential_configured env \<longrightarrow>
        (\<exists>rest. snd (generateArticle lower env client req) =
            ExternalRequest openai_system_prompt
              (openai_user_prompt (transcript req) sd ls (truncated req)) # rest \<and>
            (rest = [] \<or> rest = [ErrorLogged (js ''OpenAI generation failed:'')]))"
    unfolding c by (auto split: sum.splits)
  moreover have "credential_configured env \<longrightarrow>
        ((\<exists>e. ?answer = Inl e) \<or> ?answer = Inr None \<or>
         (\<exists>s. ?answer = Inr (Some s) \<and> list_all is_space s) \<longrightarrow>
           fst (generateArticle lower env client req) =
             Inr \<lparr>gr_text = article, gr_mode = js ''fallback''\<rparr>)"
    unfolding c generateWithOpenAI_result using blank by auto
  moreover have "\<not> credential_configured env \<longrightarrow>
        generateArticle lower env client req =
          (Inr \<lparr>gr_text = article, gr_mode = js ''fallback''\<rparr>, [])"
    unfolding c by simp
  ultimately show ?thesis using a by blast
qed


lemma example_style:
  "buildStyleDescriptor (stylePreset example_request) (styleDetail example_request)
     (language example_request) = Inr (js ''casual tone'')"
  unfolding example_request_def by code_simp

lemma example_length:
  "lengthSpecFromChoice ascii_lower (length_choice example_request) = Inr (js ''300-450 words'')"
  unfolding example_request_def by code_simp

theorem generateArticle_fallback_witness:
  "credential_configured env_with_key \<and>
   map_sum id gr_mode (fst (generateArticle ascii_lower env_with_key failing_client example_request))
     = Inr (js ''fallback'') \<and>
   map_sum id gr_mode (fst (generateArticle ascii_lower env_with_key blank_client example_request))
     = Inr (js ''fallback'') \<and>
   \<not> credential_configured env_without_key \<and>
   map_sum id gr_mode
     (fst (generateArticle ascii_lower env_without_key answering_client example_request))
     = Inr (js ''fallback'') \<and>
   snd (generateArticle ascii_lower env_without_key answering_client example_request) = []"
proof -
  have k: "credential_configured env_with_key" "\<not> credential_configured env_without_key"
    by (simp_all add: credential_configured_def env_with_key_def env_without_key_def js_def)
  have b: "list_all is_space (js ''   '')" by (simp add: js_def is_space_def)
  from generateArticle_fallback [OF example_style example_length, of env_with_key failing_client] k(1)
  have 1: "map_sum id gr_mode
      (fst (generateArticle ascii_lower env_with_key failing_client example_request))
     = Inr (js ''fallback'')"
    by (auto simp: failing_client_def)
  from generateArticle_fallback [OF example_style example_length, of env_with_key blank_client] k(1) b
  have 2: "map_sum id gr_mode
      (fst (generateArticle ascii_lower env_with_key blank_client example_request))
     = Inr (js ''fallback'')"
    by (auto simp: blank_client_def)
  from generateArticle_fallback [OF example_style example_length, of env_without_key answering_client] k(2)
  have 3: "map_sum id gr_mode
      (fst (generateArticle ascii_lower env_without_key answering_client example_request))
     = Inr (js ''fallback'')"
    "snd (generateArticle ascii_lower env_without_key answering_client example_request) = []"
    by auto
  from k 1 2 3 show ?thesis by simp
qed

text \<open>
  C9. For every request whose style descriptor and length specification are built
  without an exception, the dispatcher returns a result whose mode is one of the two
  strings \<open>openai\<close> (the value the specification calls external) and \<open>fallback\<close>. The
  mode is \<open>openai\<close> exactly when a credential is configured and the external model
  returned a non-empty text; the result's text is then that text, and it is the
  rule-based article when the mode is \<open>fallback\<close>.
\<close>

theorem generateArticle_mode:
  assumes "buildStyleDescriptor (stylePreset req) (styleDetail req) (language req) = Inr sd"
    and "lengthSpecFromChoice lower (length_choice req) = Inr ls"
  shows
  "\<exists>r evs. generateArticle lower env client req = (Inr r, evs) \<and>
     (gr_mode r = js ''openai'' \<or> gr_mode r = js ''fallback'') \<and>
     js ''openai'' \<noteq> js ''fallback'' \<and>
     (gr_mode r = js ''openai'' \<longleftrightarrow>
        credential_configured env \<and>
        (\<exists>t. fst (generateWithOpenAI client (transcript req) sd ls (truncated req)) = Inr t \<and>
             t \<noteq> [])) \<and>
     (gr_mode r = js ''openai'' \<longrightarrow>
        fst (generateWithOpenAI client (transcript req) sd ls (truncated req)) = Inr (gr_text r)) \<and>
     (gr_mode r = js ''fallback'' \<longrightarrow>
        ruleBasedArticle (segments req) sd ls (truncated req) = Inr (gr_text r))"
proof -
  obtain article where a: "ruleBasedArticle (segments req) sd ls (truncated req) = Inr article"
    using ruleBasedArticle_returns by blast
  note c = generateArticle_cases [OF assms a, of env client]
  show ?thesis
  proof (cases "credential_configured env")
    case False
    with c a mode_values_differ show ?thesis by simp
  next
    case True
    show ?thesis
    proof (cases "fst (generateWithOpenAI client (transcript req) sd ls (truncated req))")
      case (Inl e)
      with c a True mode_values_differ show ?thesis by simp
    next
      case (Inr t)
      with c a True mode_values_differ show ?thesis by (cases "t = []") simp_all
    qed
  qed
qed

theorem generateArticle_mode_witness:
  "generateArticle ascii_lower env_with_key answering_client example_request =
     (Inr \<lparr>gr_text = js ''An article.'', gr_mode = js ''openai''\<rparr>,
      [ExternalRequest openai_system_prompt
         (openai_user_prompt (js ''word word'') (js ''casual tone'') (js ''300-450 words'') False)]) \<and>
   map_sum id gr_mode
     (fst (generateArticle ascii_lower env_with_key failing_client example_request))
     = Inr (js ''fallback'')"
proof -
  have k: "credential_configured env_with_key"
    by (simp add: credential_configured_def env_with_key_def js_def)
  have tr: "trim (js '' An article. '') = js ''An article.''" by code_simp
  have ne: "js ''An article.'' \<noteq> []" by (simp add: js_def)
  have tx: "transcript example_request = js ''word word''" "truncated example_request = False"
    by (simp_all add: example_request_def)
  have g: "fst (generateWithOpenAI answering_client (transcript example_request)
      (js ''casual tone'') (js ''300-450 words'') (truncated example_request)) = Inr (js ''An article.'')"
    by (simp add: generateWithOpenAI_result answering_client_def tr)
  have f: "fst (generateWithOpenAI failing_client (transcript example_request)
      (js ''casual tone'') (js ''300-450 words'') (truncated example_request)) = Inl ExternalFailure"
    by (simp add: generateWithOpenAI_result failing_client_def)
  from generateArticle_mode [OF example_style example_length, of env_with_key answering_client]
  obtain r evs where r: "generateArticle ascii_lower env_with_key answering_client example_request = (Inr r, evs)"
    "gr_mode r = js ''openai'' \<longleftrightarrow>
        credential_configured env_with_key \<and>
        (\<exists>t. fst (generateWithOpenAI answering_client (transcript example_request)
           (js ''casual tone'') (js ''300-450 words'') (truncated example_request)) = Inr t \<and> t \<noteq> [])"
    "gr_mode r = js ''openai'' \<longrightarrow>
        fst (generateWithOpenAI answering_client (transcript example_request)
           (js ''casual tone'') (js ''300-450 words'') (truncated example_request)) = Inr (gr_text r)"
    by blast
  from r(2) k g ne have m: "gr_mode r = js ''openai''" by simp
  with r(3) g have t: "gr_text r = js ''An article.''" by simp
  have "evs = snd (generateArticle ascii_lower env_with_key answering_client example_request)"
    using r(1) by simp
  also have "\<dots> = [ExternalRequest openai_system_prompt
         (openai_user_prompt (js ''word word'') (js ''casual tone'') (js ''300-450 words'') False)]"
    using generateArticle_cases [OF example_style example_length, of _ env_with_key answering_client]
      ruleBasedArticle_returns [of "segments example_request" "js ''casual tone''" "js ''300-450 words''"
        "truncated example_request"] k g ne
    by (auto simp: tx)
  finally have e: "evs = [ExternalRequest openai_system_prompt
         (openai_user_prompt (js ''word word'') (js ''casual tone'') (js ''300-450 words'') False)]" .
  from generateArticle_mode [OF example_style example_length, of env_with_key failing_client]
  obtain r' evs' where r': "generateArticle ascii_lower env_with_key failing_client example_request = (Inr r', evs')"
    "gr_mode r' = js ''openai'' \<or> gr_mode r' = js ''fallback''"
    "gr_mode r' = js ''openai'' \<longleftrightarrow>
        credential_configured env_with_key \<and>
        (\<exists>t. fst (generateWithOpenAI failing_client (transcript example_request)
           (js ''casual tone'') (js ''300-450 words'') (truncated example_request)) = Inr t \<and> t \<noteq> [])"
    by blast
  from r'(2,3) f have m': "gr_mode r' = js ''fallback''" by simp
  have "r = \<lparr>gr_text = js ''An article.'', gr_mode = js ''openai''\<rparr>"
    using m t by (cases r) simp
  with r(1) e r'(1) m' show ?thesis by simp
qed

section \<open>The rule-based article in the generator\<close>

lemma set_join: "set (join sep xs) \<subseteq> set sep \<union> \<Union> (set ` set xs)"
  by (induction sep xs rule: join.induct) auto

lemma clampText_no_newline: "clampText v cap = Inr s \<Longrightarrow> 0xA \<notin> set s"
  using newline_notin_clean
  by (auto simp: clampText_def split: if_splits sum.splits dest!: in_set_takeD)

lemma buildStyleDescriptor_no_newline:
  assumes "buildStyleDescriptor p d l = Inr sd"
  shows "0xA \<notin> set sd"
proof -
  from assms obtain sp sdt sl where c: "clampText p STYLE_LIMIT = Inr sp"
    "clampText d DETAIL_LIMIT = Inr sdt" "clampText l 40 = Inr sl"
    and sd: "sd = join (js '' | '')
                 ((if sp \<noteq> [] then [sp] else []) @
                  (if sdt \<noteq> [] then [sdt] else []) @
                  (if sl \<noteq> [] \<and> sl \<noteq> js ''auto''
                   then [js ''Output language: '' @ sl] else []))"
    by (auto simp: buildStyleDescriptor_def split: sum.splits)
  have lit: "0xA \<notin> set (js '' | '')" "0xA \<notin> set (js ''Output language: '')"
    by (simp_all add: js_def)
  from c have n: "0xA \<notin> set sp" "0xA \<notin> set sdt" "0xA \<notin> set sl"
    using clampText_no_newline by blast+
  show ?thesis
    unfolding sd using set_join [of "js '' | ''"] lit n
    by (auto split: if_splits dest!: subsetD)
qed

lemma lengthSpec_no_newline:
  "lengthSpecFromChoice lower choice = Inr ls \<Longrightarrow> 0xA \<notin> set ls"
  by (auto simp: lengthSpecFromChoice_def lengthMap_def js_def split: sum.splits if_splits)

lemma generateArticle_fallback_lines:
  assumes "buildStyleDescriptor (stylePreset req) (styleDetail req) (language req) = Inr sd"
    and "lengthSpecFromChoice lower (length_choice req) = Inr ls"
    and "generateArticle lower env client req = (Inr r, evs)"
    and "gr_mode r = js ''fallback''"
  shows "split_lines (gr_text r) = article_lines (segments req) sd ls (truncated req)"
proof -
  obtain article where a: "ruleBasedArticle (segments req) sd ls (truncated req) = Inr article"
    "split_lines article = article_lines (segments req) sd ls (truncated req)"
    using ruleBasedArticle_lines [OF buildStyleDescriptor_no_newline [OF assms(1)]
        lengthSpec_no_newline [OF assms(2)]] by blast
  from assms(3,4) have "gr_text r = article"
    unfolding generateArticle_cases [OF assms(1,2) a(1)]
    using mode_values_differ by (auto split: sum.splits if_splits)
  with a(2) show ?thesis by simp
qed

section \<open>The video id extractor\<close>

lemma regex_search_None_iff:
  "regex_search at s = None \<longleftrightarrow> (\<forall>i\<le>length s. at (drop i s) = None)"
proof (induction s)
  case Nil
  then show ?case by simp
next
  case (Cons c cs)
  have "(\<forall>i\<le>length (c # cs). at (drop i (c # cs)) = None) \<longleftrightarrow>
      at (c # cs) = None \<and> (\<forall>j\<le>length cs. at (drop j cs) = None)"
  proof
    assume a: "\<forall>i\<le>length (c # cs). at (drop i (c # cs)) = None"
    then have "at (drop 0 (c # cs)) = None" by blast
    moreover have "at (drop j cs) = None" if "j \<le> length cs" for j
      using a [rule_format, of "Suc j"] that by simp
    ultimately show "at (c # cs) = None \<and> (\<forall>j\<le>length cs. at (drop j cs) = None)" by simp
  next
    assume a: "at (c # cs) = None \<and> (\<forall>j\<le>length cs. at (drop j cs) = None)"
    show "\<forall>i\<le>length (c # cs). at (drop i (c # cs)) = None"
    proof (intro allI impI)
      fix i assume "i \<le> length (c # cs)"
      then show "at (drop i (c # cs)) = None" using a by (cases i) simp_all
    qed
  qed
  then have "(\<forall>i\<le>length (c # cs). at (drop i (c # cs)) = None) \<longleftrightarrow>
      at (c # cs) = None \<and> regex_search at cs = None"
    by (simp only: Cons.IH)
  moreover have "regex_search at (c # cs) = None \<longleftrightarrow>
      at (c # cs) = None \<and> regex_search at cs = None"
    by (cases "at (c # cs)") simp_all
  ultimately show ?case by (simp only:)
qed

lemma regex_search_here: "at s = Some r \<Longrightarrow> regex_search at s = Some r"
  by (cases s) simp_all

lemma fallback_prefixes_distinct:
  "p \<in> set fallback_prefixes \<Longrightarrow> q \<in> set fallback_prefixes \<Longrightarrow> prefix p q \<Longrightarrow> p = q"
  by (auto simp: fallback_prefixes_def js_def)

lemma fallback_prefix_unique:
  assumes "p \<in> set fallback_prefixes" "q \<in> set fallback_prefixes" "prefix p t" "prefix q t"
  shows "p = q"
proof -
  from assms(3,4) have "prefix p q \<or> prefix q p" by (rule prefix_same_cases)
  with assms(1,2) show ?thesis using fallback_prefixes_distinct by blast
qed

lemma find_fallback_prefix:
  "find (\<lambda>p. prefix p t) fallback_prefixes = Some p \<longleftrightarrow> p \<in> set fallback_prefixes \<and> prefix p t"
proof
  assume "find (\<lambda>p. prefix p t) fallback_prefixes = Some p"
  then show "p \<in> set fallback_prefixes \<and> prefix p t"
    by (auto simp: find_Some_iff)
next
  assume a: "p \<in> set fallback_prefixes \<and> prefix p t"
  then obtain q where q: "find (\<lambda>p. prefix p t) fallback_prefixes = Some q"
    by (cases "find (\<lambda>p. prefix p t) fallback_prefixes") (auto simp: find_None_iff)
  then have "q \<in> set fallback_prefixes \<and> prefix q t" by (auto simp: find_Some_iff)
  with a have "p = q" using fallback_prefix_unique by blast
  with q show "find (\<lambda>p. prefix p t) fallback_prefixes = Some p" by simp
qed

lemma fallback_pattern_at_None:
  "fallback_pattern_at t = None \<longleftrightarrow>
     (\<forall>p\<in>set fallback_prefixes.
        \<not> (prefix p t \<and> 6 \<le> length (takeWhile is_id_char (drop (length p) t))))"
proof (cases "find (\<lambda>p. prefix p t) fallback_prefixes")
  case None
  then have "\<forall>p\<in>set fallback_prefixes. \<not> prefix p t" by (simp add: find_None_iff)
  then show ?thesis by (simp add: fallback_pattern_at_def None)
next
  case (Some q)
  then have q: "q \<in> set fallback_prefixes" "prefix q t"
    by (simp_all add: find_fallback_prefix)
  have u: "p = q" if "p \<in> set fallback_prefixes" "prefix p t" for p
    using that q fallback_prefix_unique by blast
  have "fallback_pattern_at t = None \<longleftrightarrow>
      \<not> 6 \<le> length (takeWhile is_id_char (drop (length q) t))"
    by (simp add: fallback_pattern_at_def Some Let_def)
  also have "\<dots> \<longleftrightarrow> (\<forall>p\<in>set fallback_prefixes.
        \<not> (prefix p t \<and> 6 \<le> length (takeWhile is_id_char (drop (length p) t))))"
  proof
    assume a: "\<not> 6 \<le> length (takeWhile is_id_char (drop (length q) t))"
    show "\<forall>p\<in>set fallback_prefixes.
        \<not> (prefix p t \<and> 6 \<le> length (takeWhile is_id_char (drop (length p) t)))"
    proof (intro ballI notI)
      fix p
      assume "p \<in> set fallback_prefixes"
        and b: "prefix p t \<and> 6 \<le> length (takeWhile is_id_char (drop (length p) t))"
      then have "p = q" using u by blast
      with a b show False by blast
    qed
  next
    assume "\<forall>p\<in>set fallback_prefixes.
        \<not> (prefix p t \<and> 6 \<le> length (takeWhile is_id_char (drop (length p) t)))"
    with q show "\<not> 6 \<le> length (takeWhile is_id_char (drop (length q) t))" by blast
  qed
  finally show ?thesis .
qed

lemma fallback_search_None: "regex_search fallback_pattern_at t = None \<longleftrightarrow> no_id_token t"
proof -
  have "no_id_token t \<longleftrightarrow> (\<forall>i\<le>length t. fallback_pattern_at (drop i t) = None)"
    unfolding no_id_token_def fallback_pattern_at_None
    by (auto simp: list_all_iff less_Suc_eq_le)
  then show ?thesis by (simp add: regex_search_None_iff)
qed

lemma takeWhile_token:
  assumes "\<forall>c\<in>set tok. P c" and "rest = [] \<or> \<not> P (hd rest)"
  shows "takeWhile P (tok @ rest) = tok"
proof (cases rest)
  case Nil
  with assms show ?thesis by simp
next
  case (Cons c cs)
  with assms show ?thesis by (simp add: takeWhile_append2)
qed

lemma path_pattern_at_kind:
  assumes "kind = js ''shorts'' \<or> kind = js ''live'' \<or> kind = js ''embed''"
    and "vid \<noteq> []"
    and "\<forall>c\<in>set vid. c \<noteq> of_char CHR ''/'' \<and> c \<noteq> of_char CHR ''?''"
    and "rest = [] \<or> hd rest = of_char CHR ''/''"
  shows "path_pattern_at (js ''/'' @ kind @ js ''/'' @ vid @ rest) = Some vid"
proof -
  have tok: "takeWhile (\<lambda>c. c \<noteq> of_char CHR ''/'' \<and> c \<noteq> of_char CHR ''?'') (vid @ rest) = vid"
    using assms(3,4) by (intro takeWhile_token) auto
  have s: "path_pattern_at (js ''/shorts/'' @ vid @ rest) = Some vid"
    using tok assms(2) by (simp add: path_pattern_at_def)
  have "\<not> prefix (js ''/shorts/'') (js ''/live/'' @ vid @ rest)" by (simp add: js_def)
  then have l: "path_pattern_at (js ''/live/'' @ vid @ rest) = Some vid"
    using tok assms(2) by (simp add: path_pattern_at_def)
  have "\<not> prefix (js ''/shorts/'') (js ''/embed/'' @ vid @ rest)"
    "\<not> prefix (js ''/live/'') (js ''/embed/'' @ vid @ rest)" by (simp_all add: js_def)
  then have e: "path_pattern_at (js ''/embed/'' @ vid @ rest) = Some vid"
    using tok assms(2) by (simp add: path_pattern_at_def)
  have k: "js ''/'' @ js ''shorts'' @ js ''/'' @ x = js ''/shorts/'' @ x"
    "js ''/'' @ js ''live'' @ js ''/'' @ x = js ''/live/'' @ x"
    "js ''/'' @ js ''embed'' @ js ''/'' @ x = js ''/embed/'' @ x" for x
    by (simp_all add: js_def)
  from assms(1) show ?thesis
  proof (elim disjE)
    assume "kind = js ''shorts''"
    then show ?thesis by (simp only: k s)
  next
    assume "kind = js ''live''"
    then show ?thesis by (simp only: k l)
  next
    assume "kind = js ''embed''"
    then show ?thesis by (simp only: k e)
  qed
qed

lemma not_youtu_be: "suffix (js ''youtube.com'') host \<Longrightarrow> host \<noteq> js ''youtu.be''"
proof
  assume "suffix (js ''youtube.com'') host" "host = js ''youtu.be''"
  then have "length (js ''youtube.com'') \<le> length (js ''youtu.be'')"
    using suffix_length_le by blast
  then show False by (simp add: js_def)
qed


lemma structured_youtu_be:
  assumes "parse t = Some u" and "replace_first (js ''www.'') [] (hostname u) = js ''youtu.be''"
  shows "structured_id parse t = Some (filter (\<lambda>c. c \<noteq> of_char CHR ''/'') (pathname u))"
  using assms by (simp add: structured_id_def)

lemma structured_query:
  assumes "parse t = Some u" and "suffix (js ''youtube.com'') (replace_first (js ''www.'') [] (hostname u))"
    and "search_get (searchParams u) (js ''v'') = Some vid" and "vid \<noteq> []"
  shows "structured_id parse t = Some vid"
  using assms not_youtu_be [OF assms(2)] by (simp add: structured_id_def)

lemma structured_path:
  assumes "parse t = Some u" and "suffix (js ''youtube.com'') (replace_first (js ''www.'') [] (hostname u))"
    and "search_get (searchParams u) (js ''v'') = None \<or> search_get (searchParams u) (js ''v'') = Some []"
  shows "structured_id parse t = regex_search path_pattern_at (pathname u)"
  using assms not_youtu_be [OF assms(2)] by (auto simp: structured_id_def)

lemma extractVideoId_structured:
  "structured_id parse (trim input) = Some vid \<Longrightarrow> extractVideoId parse input = Some vid"
  by (simp add: extractVideoId_def)

lemma structured_id_None:
  "structured_id parse t = None \<longleftrightarrow>
     parse t = None \<or>
     (\<exists>u. parse t = Some u \<and>
          replace_first (js ''www.'') [] (hostname u) \<noteq> js ''youtu.be'' \<and>
          (\<not> suffix (js ''youtube.com'') (replace_first (js ''www.'') [] (hostname u)) \<or>
           (search_get (searchParams u) (js ''v'') = None \<or>
            search_get (searchParams u) (js ''v'') = Some []) \<and>
           regex_search path_pattern_at (pathname u) = None))"
  by (cases "parse t") (auto simp: structured_id_def Let_def)

lemma trim_example_urls:
  "trim (js ''https://youtu.be/abc123xy'') = js ''https://youtu.be/abc123xy''"
  "trim (js ''https://www.youtube.com/watch?v=abc123xy&t=5'') =
     js ''https://www.youtube.com/watch?v=abc123xy&t=5''"
  "trim (js ''not a url'') = js ''not a url''"
  by code_simp+

lemma example_hosts:
  "replace_first (js ''www.'') [] (js ''youtu.be'') = js ''youtu.be''"
  "replace_first (js ''www.'') [] (js ''www.youtube.com'') = js ''youtube.com''"
  by code_simp+

text \<open>
  C5. Whenever the platform parses the trimmed input into a URL whose host (without
  its first \<open>www.\<close>) is \<open>youtu.be\<close> and whose path is \<open>/id\<close>, or whose host ends with
  \<open>youtube.com\<close> and whose query holds a non-empty \<open>v=id\<close> (among any other
  parameters), or whose host ends with \<open>youtube.com\<close>, with no non-empty \<open>v\<close>
  parameter, and whose path is \<open>/shorts/id\<close>, \<open>/live/id\<close> or \<open>/embed/id\<close> (possibly
  followed by further path segments), \<open>extractVideoId\<close> returns exactly \<open>id\<close>. In
  particular \<open>https://youtu.be/abc123xy\<close> and
  \<open>https://www.youtube.com/watch?v=abc123xy&t=5\<close>, parsed as the URL standard says,
  give \<open>abc123xy\<close>.
\<close>

theorem extractVideoId_shapes:
  "(\<forall>u host. parse (trim input) = Some u \<and>
        host = replace_first (js ''www.'') [] (hostname u) \<longrightarrow>
      (host = js ''youtu.be'' \<and> pathname u = js ''/'' @ vid \<and> of_char CHR ''/'' \<notin> set vid \<longrightarrow>
         extractVideoId parse input = Some vid) \<and>
      (suffix (js ''youtube.com'') host \<and>
       search_get (searchParams u) (js ''v'') = Some vid \<and> vid \<noteq> [] \<longrightarrow>
         extractVideoId parse input = Some vid) \<and>
      (suffix (js ''youtube.com'') host \<and>
       (search_get (searchParams u) (js ''v'') = None \<or>
        search_get (searchParams u) (js ''v'') = Some []) \<and>
       (kind = js ''shorts'' \<or> kind = js ''live'' \<or> kind = js ''embed'') \<and>
       pathname u = js ''/'' @ kind @ js ''/'' @ vid @ rest \<and> vid \<noteq> [] \<and>
       (\<forall>c\<in>set vid. c \<noteq> of_char CHR ''/'' \<and> c \<noteq> of_char CHR ''?'') \<and>
       (rest = [] \<or> hd rest = of_char CHR ''/'') \<longrightarrow>
         extractVideoId parse input = Some vid)) \<and>
   (parse (js ''https://youtu.be/abc123xy'') =
      Some \<lparr>hostname = js ''youtu.be'', pathname = js ''/abc123xy'', searchParams = []\<rparr> \<longrightarrow>
    extractVideoId parse (js ''https://youtu.be/abc123xy'') = Some (js ''abc123xy'')) \<and>
   (parse (js ''https://www.youtube.com/watch?v=abc123xy&t=5'') =
      Some \<lparr>hostname = js ''www.youtube.com'', pathname = js ''/watch'',
            searchParams = [(js ''v'', js ''abc123xy''), (js ''t'', js ''5'')]\<rparr> \<longrightarrow>
    extractVideoId parse (js ''https://www.youtube.com/watch?v=abc123xy&t=5'') =
      Some (js ''abc123xy''))"
proof (intro conjI allI impI)
  fix u host
  assume a: "parse (trim input) = Some u \<and> host = replace_first (js ''www.'') [] (hostname u)"
  {
    assume b: "host = js ''youtu.be'' \<and> pathname u = js ''/'' @ vid \<and> of_char CHR ''/'' \<notin> set vid"
    then have "filter (\<lambda>c. c \<noteq> of_char CHR ''/'') (pathname u) = vid"
      by (simp add: js_def filter_id_conv) metis
    with a b show "extractVideoId parse input = Some vid"
      using structured_youtu_be [of parse "trim input" u] extractVideoId_structured by simp
  next
    assume "suffix (js ''youtube.com'') host \<and>
       search_get (searchParams u) (js ''v'') = Some vid \<and> vid \<noteq> []"
    with a show "extractVideoId parse input = Some vid"
      using structured_query [of parse "trim input" u vid] extractVideoId_structured by simp
  next
    assume b: "suffix (js ''youtube.com'') host \<and>
       (search_get (searchParams u) (js ''v'') = None \<or>
        search_get (searchParams u) (js ''v'') = Some []) \<and>
       (kind = js ''shorts'' \<or> kind = js ''live'' \<or> kind = js ''embed'') \<and>
       pathname u = js ''/'' @ kind @ js ''/'' @ vid @ rest \<and> vid \<noteq> [] \<and>
       (\<forall>c\<in>set vid. c \<noteq> of_char CHR ''/'' \<and> c \<noteq> of_char CHR ''?'') \<and>
       (rest = [] \<or> hd rest = of_char CHR ''/'')"
    then have "path_pattern_at (pathname u) = Some vid"
      using path_pattern_at_kind [of kind vid rest] by simp
    then have "regex_search path_pattern_at (pathname u) = Some vid"
      by (rule regex_search_here)
    with a b have "structured_id parse (trim input) = Some vid"
      using structured_path [of parse "trim input" u] by simp
    then show "extractVideoId parse input = Some vid" by (rule extractVideoId_structured)
  }
next
  assume "parse (js ''https://youtu.be/abc123xy'') =
      Some \<lparr>hostname = js ''youtu.be'', pathname = js ''/abc123xy'', searchParams = []\<rparr>"
  then have "structured_id parse (trim (js ''https://youtu.be/abc123xy'')) =
      Some (filter (\<lambda>c. c \<noteq> of_char CHR ''/'') (js ''/abc123xy''))"
    using structured_youtu_be [of parse "js ''https://youtu.be/abc123xy''"]
    by (simp add: trim_example_urls example_hosts)
  moreover have "filter (\<lambda>c. c \<noteq> of_char CHR ''/'') (js ''/abc123xy'') = js ''abc123xy''"
    by (simp add: js_def)
  ultimately show "extractVideoId parse (js ''https://youtu.be/abc123xy'') = Some (js ''abc123xy'')"
    using extractVideoId_structured by simp
next
  assume "parse (js ''https://www.youtube.com/watch?v=abc123xy&t=5'') =
      Some \<lparr>hostname = js ''www.youtube.com'', pathname = js ''/watch'',
            searchParams = [(js ''v'', js ''abc123xy''), (js ''t'', js ''5'')]\<rparr>"
  moreover have "js ''abc123xy'' \<noteq> []" by (simp add: js_def)
  ultimately have "structured_id parse (trim (js ''https://www.youtube.com/watch?v=abc123xy&t=5'')) =
      Some (js ''abc123xy'')"
    using structured_query [of parse "js ''https://www.youtube.com/watch?v=abc123xy&t=5''" _ "js ''abc123xy''"]
    by (simp add: trim_example_urls example_hosts)
  then show "extractVideoId parse (js ''https://www.youtube.com/watch?v=abc123xy&t=5'') =
      Some (js ''abc123xy'')"
    by (rule extractVideoId_structured)
qed


theorem extractVideoId_shapes_witness:
  "extractVideoId plain_url_parse (js ''https://youtu.be/abc123xy'') = Some (js ''abc123xy'') \<and>
   extractVideoId plain_url_parse (js ''https://www.youtube.com/watch?v=abc123xy&t=5'') =
     Some (js ''abc123xy'') \<and>
   extractVideoId plain_url_parse (js '' https://m.youtube.com/shorts/abc123xy/more?feature=share '') =
     Some (js ''abc123xy'') \<and>
   extractVideoId plain_url_parse (js ''https://www.youtube.com/embed/abc123xy'') =
     Some (js ''abc123xy'')"
proof -
  have p1: "plain_url_parse (js ''https://youtu.be/abc123xy'') =
      Some \<lparr>hostname = js ''youtu.be'', pathname = js ''/abc123xy'', searchParams = []\<rparr>"
    by code_simp
  have p2: "plain_url_parse (js ''https://www.youtube.com/watch?v=abc123xy&t=5'') =
      Some \<lparr>hostname = js ''www.youtube.com'', pathname = js ''/watch'',
            searchParams = [(js ''v'', js ''abc123xy''), (js ''t'', js ''5'')]\<rparr>"
    by code_simp
  have p3: "plain_url_parse (trim (js '' https://m.youtube.com/shorts/abc123xy/more?feature=share '')) =
      Some \<lparr>hostname = js ''m.youtube.com'', pathname = js ''/shorts/abc123xy/more'',
            searchParams = [(js ''feature'', js ''share'')]\<rparr>"
    by code_simp
  have p4: "plain_url_parse (trim (js ''https://www.youtube.com/embed/abc123xy'')) =
      Some \<lparr>hostname = js ''www.youtube.com'', pathname = js ''/embed/abc123xy'',
            searchParams = []\<rparr>"
    by code_simp
  have h3: "suffix (js ''youtube.com'') (replace_first (js ''www.'') [] (js ''m.youtube.com''))"
    by code_simp
  have h4: "suffix (js ''youtube.com'') (replace_first (js ''www.'') [] (js ''www.youtube.com''))"
    by code_simp
  have q3: "search_get [(js ''feature'', js ''share'')] (js ''v'') = None" by code_simp
  have v: "js ''abc123xy'' \<noteq> []"
    "\<forall>c\<in>set (js ''abc123xy''). c \<noteq> of_char CHR ''/'' \<and> c \<noteq> of_char CHR ''?''"
    by (simp_all add: js_def)
  have path3: "js ''/shorts/abc123xy/more'' = js ''/'' @ js ''shorts'' @ js ''/'' @ js ''abc123xy'' @ js ''/more''"
    and rest3: "hd (js ''/more'') = of_char CHR ''/''"
    and path4: "js ''/embed/abc123xy'' = js ''/'' @ js ''embed'' @ js ''/'' @ js ''abc123xy'' @ []"
    by (simp_all add: js_def)
  note t1 = extractVideoId_shapes [of plain_url_parse "js ''https://youtu.be/abc123xy''"]
  from t1 p1 have 1: "extractVideoId plain_url_parse (js ''https://youtu.be/abc123xy'') = Some (js ''abc123xy'')"
    by blast
  from t1 p2 have 2: "extractVideoId plain_url_parse (js ''https://www.youtube.com/watch?v=abc123xy&t=5'') =
     Some (js ''abc123xy'')"
    by blast
  from extractVideoId_shapes [of plain_url_parse
      "js '' https://m.youtube.com/shorts/abc123xy/more?feature=share ''" "js ''abc123xy''"
      "js ''shorts''" "js ''/more''"]
  have 3: "extractVideoId plain_url_parse (js '' https://m.youtube.com/shorts/abc123xy/more?feature=share '') =
     Some (js ''abc123xy'')"
    using p3 h3 q3 v path3 rest3 by simp
  from extractVideoId_shapes [of plain_url_parse
      "js ''https://www.youtube.com/embed/abc123xy''" "js ''abc123xy''" "js ''embed''" "[]"]
  have 4: "extractVideoId plain_url_parse (js ''https://www.youtube.com/embed/abc123xy'') =
     Some (js ''abc123xy'')"
    using p4 h4 v path4 by simp
  from 1 2 3 4 show ?thesis by simp
qed

text \<open>
  C6 (as amended). \<open>extractVideoId\<close> returns \<open>null\<close> exactly when the structured parse
  returns no id and the fallback pattern finds no token of 6 or more id characters;
  it never throws, a failed parse leading on to the fallback. The structured parse
  returns no id when the input does not parse, when its host is neither \<open>youtu.be\<close>
  nor ends with \<open>youtube.com\<close>, or when a \<open>youtube.com\<close> URL has neither a non-empty
  \<open>v\<close> parameter nor a \<open>/shorts/\<close>, \<open>/live/\<close> or \<open>/embed/\<close> path token. An id that the
  structured parse does return is not checked for its length: for a \<open>youtu.be\<close> URL
  the result is the path without its slashes, whatever its length.
\<close>

theorem extractVideoId_null:
  "(extractVideoId parse input = None \<longleftrightarrow>
      structured_id parse (trim input) = None \<and> no_id_token (trim input)) \<and>
   (structured_id parse (trim input) = None \<longleftrightarrow>
      parse (trim input) = None \<or>
      (\<exists>u. parse (trim input) = Some u \<and>
           replace_first (js ''www.'') [] (hostname u) \<noteq> js ''youtu.be'' \<and>
           (\<not> suffix (js ''youtube.com'') (replace_first (js ''www.'') [] (hostname u)) \<or>
            (search_get (searchParams u) (js ''v'') = None \<or>
             search_get (searchParams u) (js ''v'') = Some []) \<and>
            regex_search path_pattern_at (pathname u) = None))) \<and>
   (parse (trim input) = None \<and> no_id_token (trim input) \<longrightarrow>
      extractVideoId parse input = None) \<and>
   (\<forall>u. parse (trim input) = Some u \<and>
        replace_first (js ''www.'') [] (hostname u) = js ''youtu.be'' \<longrightarrow>
      extractVideoId parse input =
        Some (filter (\<lambda>c. c \<noteq> of_char CHR ''/'') (pathname u))) \<and>
   (parse (js ''not a url'') = None \<longrightarrow> extractVideoId parse (js ''not a url'') = None)"
proof -
  have 1: "extractVideoId parse input = None \<longleftrightarrow>
      structured_id parse (trim input) = None \<and> no_id_token (trim input)"
    by (cases "structured_id parse (trim input)")
      (simp_all add: extractVideoId_def fallback_search_None)
  have 2: "parse (trim input) = None \<and> no_id_token (trim input) \<longrightarrow>
      extractVideoId parse input = None"
    using 1 structured_id_None [of parse "trim input"] by blast
  have 3: "\<forall>u. parse (trim input) = Some u \<and>
        replace_first (js ''www.'') [] (hostname u) = js ''youtu.be'' \<longrightarrow>
      extractVideoId parse input =
        Some (filter (\<lambda>c. c \<noteq> of_char CHR ''/'') (pathname u))"
    using structured_youtu_be [of parse "trim input"] extractVideoId_structured by blast
  have n: "no_id_token (js ''not a url'')" by code_simp
  have 4: "parse (js ''not a url'') = None \<longrightarrow> extractVideoId parse (js ''not a url'') = None"
  proof
    assume "parse (js ''not a url'') = None"
    then have "structured_id parse (trim (js ''not a url'')) = None"
      by (simp add: structured_id_None trim_example_urls)
    with n show "extractVideoId parse (js ''not a url'') = None"
      by (simp add: extractVideoId_def fallback_search_None trim_example_urls)
  qed
  from 1 2 3 4 structured_id_None [of parse "trim input"] show ?thesis by blast
qed

theorem extractVideoId_null_witness:
  "plain_url_parse (js ''not a url'') = None \<and>
   extractVideoId plain_url_parse (js ''not a url'') = None \<and>
   plain_url_parse (trim (js ''  watch this: v=abc  '')) = None \<and>
   no_id_token (trim (js ''  watch this: v=abc  '')) \<and>
   extractVideoId plain_url_parse (js ''  watch this: v=abc  '') = None \<and>
   extractVideoId plain_url_parse (js ''https://youtu.be/'') = Some []"
proof -
  have p: "plain_url_parse (js ''not a url'') = None"
    "plain_url_parse (trim (js ''  watch this: v=abc  '')) = None"
    by code_simp+
  have n: "no_id_token (trim (js ''  watch this: v=abc  ''))" by code_simp
  have y: "plain_url_parse (trim (js ''https://youtu.be/'')) =
      Some \<lparr>hostname = js ''youtu.be'', pathname = js ''/'', searchParams = []\<rparr>"
    by code_simp
  from extractVideoId_null [of plain_url_parse "js ''not a url''"] p(1)
  have 1: "extractVideoId plain_url_parse (js ''not a url'') = None" by blast
  from extractVideoId_null [of plain_url_parse "js ''  watch this: v=abc  ''"] p(2) n
  have 2: "extractVideoId plain_url_parse (js ''  watch this: v=abc  '') = None" by blast
  from extractVideoId_null [of plain_url_parse "js ''https://youtu.be/''"] y
  have 3: "extractVideoId plain_url_parse (js ''https://youtu.be/'') = Some []"
    by (simp add: example_hosts js_def)
  from p n 1 2 3 show ?thesis by simp
qed

theorem extractVideoId_short_counterexample:
  "no_id_token (trim (js ''https://youtu.be/abc'')) \<and>
   extractVideoId plain_url_parse (js ''https://youtu.be/abc'') = Some (js ''abc'') \<and>
   length (js ''abc'') < 6"
  by code_simp

section \<open>The transcript of the generate endpoint\<close>

lemma generateArticle_returns:
  assumes "buildStyleDescriptor (stylePreset req) (styleDetail req) (language req) = Inr sd"
    and "lengthSpecFromChoice lower (length_choice req) = Inr ls"
  shows "\<exists>r evs. generateArticle lower env client req = (Inr r, evs)"
proof -
  obtain article where a: "ruleBasedArticle (segments req) sd ls (truncated req) = Inr article"
    using ruleBasedArticle_returns by blast
  show ?thesis
    unfolding generateArticle_cases [OF assms a]
    by (auto split: sum.splits)
qed

lemma generate_handler_success:
  assumes "b_url body = JStr u" and "u \<noteq> []"
    and "extractVideoId (url_parse sys) u = Some vid" and "vid \<noteq> []"
    and "fetchTranscript sys vid = Inr (Some segs)" and "segs \<noteq> []"
    and "buildStyleDescriptor (b_stylePreset body) (b_styleDetail body) (b_language body) = Inr sd"
    and "lengthSpecFromChoice (to_lower_case sys) (b_length body) = Inr ls"
  shows "\<exists>(r :: generation_result) evs. generate_handler sys body =
     (Json \<lparr>p_videoId = vid,
            p_transcript = (if 12000 < length (normalizeTranscript segs)
                            then take 12000 (normalizeTranscript segs) @ js '' ...''
                            else normalizeTranscript segs),
            p_truncated = (12000 < length (normalizeTranscript segs)),
            p_article = gr_text r, p_mode = gr_mode r\<rparr>, evs)"
proof -
  let ?N = "normalizeTranscript segs"
  let ?T = "if 12000 < length ?N then take 12000 ?N @ js '' ...'' else ?N"
  let ?req = "\<lparr>transcript = ?T, segments = segs,
                 stylePreset = b_stylePreset body, styleDetail = b_styleDetail body,
                 length_choice = b_length body, language = b_language body,
                 truncated = (12000 < length ?N)\<rparr>"
  have "\<exists>r evs. generateArticle (to_lower_case sys) (process_environment sys)
      (openai sys) ?req = (Inr r, evs)"
    by (rule generateArticle_returns [of ?req sd _ ls]) (simp_all add: assms(7,8))
  then obtain r evs where g: "generateArticle (to_lower_case sys) (process_environment sys)
      (openai sys) ?req = (Inr r, evs)"
    by blast
  show ?thesis
    unfolding generate_handler_def MAX_TRANSCRIPT_CHARS_def Let_def
    using assms(1-6) g
    by (simp split del: if_split) blast
qed

lemma generate_handler_Json:
  assumes "generate_handler sys body = (Json p, evs)"
  shows "\<exists>vid segs. fetchTranscript sys vid = Inr (Some segs) \<and> segs \<noteq> [] \<and>
     p_videoId p = vid \<and>
     p_truncated p = (12000 < length (normalizeTranscript segs)) \<and>
     p_transcript p = (if 12000 < length (normalizeTranscript segs)
                       then take 12000 (normalizeTranscript segs) @ js '' ...''
                       else normalizeTranscript segs)"
proof (cases "b_url body")
  case (JStr u)
  note u = this
  show ?thesis
  proof (cases "u = []")
    case True
    with assms u show ?thesis by (simp add: generate_handler_def)
  next
    case False
    show ?thesis
    proof (cases "extractVideoId (url_parse sys) u")
      case None
      with assms u False show ?thesis by (simp add: generate_handler_def)
    next
      case (Some vid)
      note vid = this
      show ?thesis
      proof (cases "vid = []")
        case True
        with assms u False vid show ?thesis by (simp add: generate_handler_def)
      next
        case nonempty: False
        show ?thesis
        proof (cases "fetchTranscript sys vid")
          case (Inl e)
          with assms u False vid nonempty show ?thesis by (simp add: generate_handler_def)
        next
          case (Inr fetched)
          show ?thesis
          proof (cases fetched)
            case None
            with assms u False vid nonempty Inr show ?thesis by (simp add: generate_handler_def)
          next
            case (Some segs)
            show ?thesis
            proof (cases "segs = []")
              case True
              with assms u False vid nonempty Inr Some show ?thesis
                by (simp add: generate_handler_def)
            next
              case segs: False
              from assms [unfolded generate_handler_def MAX_TRANSCRIPT_CHARS_def Let_def]
                u False vid nonempty Inr Some segs
              have "p_videoId p = vid \<and>
                 p_truncated p = (12000 < length (normalizeTranscript segs)) \<and>
                 p_transcript p = (if 12000 < length (normalizeTranscript segs)
                       then take 12000 (normalizeTranscript segs) @ js '' ...''
                       else normalizeTranscript segs)"
                by (auto split: prod.splits sum.splits split del: if_split)
              with Inr Some segs show ?thesis by blast
            qed
          qed
        qed
      qed
    qed
  qed
qed (use assms in \<open>simp_all add: generate_handler_def\<close>)

lemma ellipsis_length: "length (js '' ...'') = 4"
  by (simp add: js_def)


lemma join_letters_step:
  "join [0x20] (replicate (Suc (Suc n)) [0x61]) =
     (0x61 :: code_unit) # 0x20 # join [0x20] (replicate (Suc n) [0x61])"
  by simp

lemma join_letters_hd: "hd (join [0x20] (replicate (Suc n) [0x61 :: code_unit])) = 0x61"
  by (cases n) simp_all

lemma join_letters_not_Nil: "join [0x20] (replicate (Suc n) [0x61 :: code_unit]) \<noteq> []"
  by (cases n) simp_all

lemma join_letters_last: "last (join [0x20] (replicate (Suc n) [0x61 :: code_unit])) = 0x61"
proof (induction n)
  case 0
  then show ?case by simp
next
  case (Suc n)
  show ?case
    unfolding join_letters_step using Suc join_letters_not_Nil [of n] by simp
qed

lemma join_letters_length:
  "length (join [0x20] (replicate (Suc n) [0x61 :: code_unit])) = 2 * n + 1"
proof (induction n)
  case 0
  then show ?case by simp
next
  case (Suc n)
  show ?case unfolding join_letters_step using Suc by simp
qed

lemma letter_not_space: "\<not> is_space 0x61"
  by (simp add: is_space_def)

lemma join_letters_collapse:
  "collapse_ws (join [0x20] (replicate (Suc n) [0x61])) = join [0x20] (replicate (Suc n) [0x61])"
proof (induction n)
  case 0
  then show ?case by (simp add: letter_not_space)
next
  case (Suc n)
  have "dropWhile is_space (join [0x20] (replicate (Suc n) [0x61])) =
      join [0x20] (replicate (Suc n) [0x61])"
    using join_letters_hd [of n] join_letters_not_Nil [of n]
    by (simp add: dropWhile_eq_self_iff letter_not_space)
  then show ?case
    unfolding join_letters_step using Suc by (simp add: letter_not_space is_space_SP)
qed

lemma normalizeTranscript_letters:
  "normalizeTranscript (letter_segments (Suc n)) = join [0x20] (replicate (Suc n) [0x61])"
proof -
  have a: "js ''a'' = [0x61]" "js '' '' = [0x20]" by (simp_all add: js_def)
  have "map (\<lambda>segment. field_join (seg_text segment)) (letter_segments (Suc n)) =
      replicate (Suc n) [0x61]"
    unfolding letter_segments_def by (simp add: a del: replicate_Suc)
  then have "normalizeTranscript (letter_segments (Suc n)) =
      trim (join [0x20] (replicate (Suc n) [0x61]))"
    unfolding normalizeTranscript_def by (simp only: a join_letters_collapse)
  also have "\<dots> = join [0x20] (replicate (Suc n) [0x61])"
    by (rule trim_no_change)
      (simp_all only: join_letters_not_Nil join_letters_hd join_letters_last letter_not_space
        not_False_eq_True)
  finally show ?thesis .
qed

lemma normalizeTranscript_letters_length:
  "length (normalizeTranscript (letter_segments (Suc n))) = 2 * n + 1"
  by (simp only: normalizeTranscript_letters join_letters_length)

lemma total_text_length_letters: "total_text_length (letter_segments n) = n"
proof -
  have "length (js ''a'') = 1" by (simp add: js_def)
  then show ?thesis
    by (simp add: total_text_length_def letter_segments_def sum_list_replicate)
qed

lemma example_body_facts:
  "b_url example_body = JStr (js ''https://youtu.be/abc123xy'')"
  "js ''https://youtu.be/abc123xy'' \<noteq> []"
  "extractVideoId plain_url_parse (js ''https://youtu.be/abc123xy'') = Some (js ''abc123xy'')"
  "js ''abc123xy'' \<noteq> []"
  "buildStyleDescriptor (b_stylePreset example_body) (b_styleDetail example_body)
     (b_language example_body) = Inr (js ''casual tone'')"
  "lengthSpecFromChoice ascii_lower (b_length example_body) = Inr (js ''300-450 words'')"
  unfolding example_body_def by code_simp+

text \<open>
  C1 (as amended). Whenever the generate endpoint answers with a result, that result
  was made from a non-empty list of segments delivered by the transcript collaborator:
  its truncated flag is true exactly when the normalized text of the segments is
  longer than 12000 code units; the transcript is then the first 12000 code units of
  the normalized text followed by \<open>" ..."\<close> (12004 code units in all), and otherwise
  the normalized text unchanged. The endpoint does answer so for every non-empty list
  of segments, given a URL with an id and style values that convert to strings; for an
  empty list it answers with status 404.
\<close>

theorem generate_transcript_truncation:
  "(generate_handler sys body = (Json p, evs) \<longrightarrow>
      (\<exists>vid segs. fetchTranscript sys vid = Inr (Some segs) \<and> segs \<noteq> [] \<and>
         p_truncated p = (12000 < length (normalizeTranscript segs)) \<and>
         p_transcript p = (if 12000 < length (normalizeTranscript segs)
                           then take 12000 (normalizeTranscript segs) @ js '' ...''
                           else normalizeTranscript segs) \<and>
         (p_truncated p \<longrightarrow> length (p_transcript p) = 12004))) \<and>
   (b_url body = JStr u \<and> u \<noteq> [] \<and>
    extractVideoId (url_parse sys) u = Some vid \<and> vid \<noteq> [] \<and>
    fetchTranscript sys vid = Inr (Some segs) \<and> segs \<noteq> [] \<and>
    buildStyleDescriptor (b_stylePreset body) (b_styleDetail body) (b_language body) = Inr sd \<and>
    lengthSpecFromChoice (to_lower_case sys) (b_length body) = Inr ls \<longrightarrow>
      (\<exists>p' evs'. generate_handler sys body = (Json p', evs') \<and>
         p_truncated p' = (12000 < length (normalizeTranscript segs)) \<and>
         p_transcript p' = (if 12000 < length (normalizeTranscript segs)
                            then take 12000 (normalizeTranscript segs) @ js '' ...''
                            else normalizeTranscript segs))) \<and>
   (b_url body = JStr u \<and> u \<noteq> [] \<and>
    extractVideoId (url_parse sys) u = Some vid \<and> vid \<noteq> [] \<and>
    fetchTranscript sys vid = Inr (Some []) \<longrightarrow>
      fst (generate_handler sys body) =
        ErrorStatus 404 (js ''No transcript found for this video.''))"
proof (intro conjI impI)
  assume "generate_handler sys body = (Json p, evs)"
  then obtain vid segs where a: "fetchTranscript sys vid = Inr (Some segs)" "segs \<noteq> []"
    "p_truncated p = (12000 < length (normalizeTranscript segs))"
    "p_transcript p = (if 12000 < length (normalizeTranscript segs)
                       then take 12000 (normalizeTranscript segs) @ js '' ...''
                       else normalizeTranscript segs)"
    using generate_handler_Json by blast
  then have "p_truncated p \<longrightarrow> length (p_transcript p) = 12004"
    by (simp add: ellipsis_length)
  with a show "\<exists>vid segs. fetchTranscript sys vid = Inr (Some segs) \<and> segs \<noteq> [] \<and>
         p_truncated p = (12000 < length (normalizeTranscript segs)) \<and>
         p_transcript p = (if 12000 < length (normalizeTranscript segs)
                           then take 12000 (normalizeTranscript segs) @ js '' ...''
                           else normalizeTranscript segs) \<and>
         (p_truncated p \<longrightarrow> length (p_transcript p) = 12004)"
    by blast
next
  assume "b_url body = JStr u \<and> u \<noteq> [] \<and>
    extractVideoId (url_parse sys) u = Some vid \<and> vid \<noteq> [] \<and>
    fetchTranscript sys vid = Inr (Some segs) \<and> segs \<noteq> [] \<and>
    buildStyleDescriptor (b_stylePreset body) (b_styleDetail body) (b_language body) = Inr sd \<and>
    lengthSpecFromChoice (to_lower_case sys) (b_length body) = Inr ls"
  then obtain r evs' where "generate_handler sys body =
     (Json \<lparr>p_videoId = vid,
            p_transcript = (if 12000 < length (normalizeTranscript segs)
                            then take 12000 (normalizeTranscript segs) @ js '' ...''
                            else normalizeTranscript segs),
            p_truncated = (12000 < length (normalizeTranscript segs)),
            p_article = gr_text (r :: generation_result), p_mode = gr_mode r\<rparr>, evs')"
    using generate_handler_success [of body u sys vid segs sd ls] by blast
  then show "\<exists>p' evs'. generate_handler sys body = (Json p', evs') \<and>
         p_truncated p' = (12000 < length (normalizeTranscript segs)) \<and>
         p_transcript p' = (if 12000 < length (normalizeTranscript segs)
                            then take 12000 (normalizeTranscript segs) @ js '' ...''
                            else normalizeTranscript segs)"
    by simp
next
  assume "b_url body = JStr u \<and> u \<noteq> [] \<and>
    extractVideoId (url_parse sys) u = Some vid \<and> vid \<noteq> [] \<and>
    fetchTranscript sys vid = Inr (Some [])"
  then show "fst (generate_handler sys body) =
        ErrorStatus 404 (js ''No transcript found for this video.'')"
    by (simp add: generate_handler_def)
qed


theorem generate_transcript_truncation_witness:
  "map_option p_truncated (response_payload (fst (generate_handler
       (plain_platform env_without_key (fetch_const (word_segments 2)) failing_client)
       example_body))) = Some False \<and>
   map_option p_transcript (response_payload (fst (generate_handler
       (plain_platform env_without_key (fetch_const (word_segments 2)) failing_client)
       example_body))) = Some (js ''word word'') \<and>
   map_option p_truncated (response_payload (fst (generate_handler
       (plain_platform env_without_key (fetch_const (letter_segments 6001)) failing_client)
       example_body))) = Some True \<and>
   map_option (\<lambda>p. length (p_transcript p)) (response_payload (fst (generate_handler
       (plain_platform env_without_key (fetch_const (letter_segments 6001)) failing_client)
       example_body))) = Some 12004 \<and>
   fst (generate_handler
       (plain_platform env_without_key (fetch_const []) failing_client) example_body) =
     ErrorStatus 404 (js ''No transcript found for this video.'')"
proof -
  let ?sys = "\<lambda>segs. plain_platform env_without_key (fetch_const segs) failing_client"
  have sys: "url_parse (?sys segs) = plain_url_parse" "to_lower_case (?sys segs) = ascii_lower"
    "fetchTranscript (?sys segs) vid = Inr (Some segs)" for segs vid
    by (simp_all add: plain_platform_def fetch_const_def)
  have w: "normalizeTranscript (word_segments 2) = js ''word word''"
    unfolding word_segments_def by code_simp
  have wl: "\<not> 12000 < length (js ''word word'')" by (simp add: js_def)
  have ne: "word_segments 2 \<noteq> []" "letter_segments 6001 \<noteq> []"
    by (simp_all add: word_segments_def letter_segments_def)
  have l: "length (normalizeTranscript (letter_segments 6001)) = 12001"
    using normalizeTranscript_letters_length [of 6000] by simp
  have "b_url example_body = JStr (js ''https://youtu.be/abc123xy'') \<and>
      js ''https://youtu.be/abc123xy'' \<noteq> [] \<and>
      extractVideoId (url_parse (?sys segs)) (js ''https://youtu.be/abc123xy'') =
        Some (js ''abc123xy'') \<and> js ''abc123xy'' \<noteq> [] \<and>
      fetchTranscript (?sys segs) (js ''abc123xy'') = Inr (Some segs)" for segs
    by (simp only: example_body_facts sys not_False_eq_True simp_thms)
  note pre = this
  have style: "buildStyleDescriptor (b_stylePreset example_body) (b_styleDetail example_body)
        (b_language example_body) = Inr (js ''casual tone'') \<and>
      lengthSpecFromChoice (to_lower_case (?sys segs)) (b_length example_body) =
        Inr (js ''300-450 words'')" for segs
    by (simp only: example_body_facts sys simp_thms)
  from generate_transcript_truncation [of "?sys (word_segments 2)" example_body _ _
      "js ''https://youtu.be/abc123xy''" "js ''abc123xy''" "word_segments 2"
      "js ''casual tone''" "js ''300-450 words''"]
    pre [of "word_segments 2"] style [of "word_segments 2"] ne(1)
  have "\<exists>p' evs'. generate_handler (?sys (word_segments 2)) example_body = (Json p', evs') \<and>
         p_truncated p' = (12000 < length (normalizeTranscript (word_segments 2))) \<and>
         p_transcript p' = (if 12000 < length (normalizeTranscript (word_segments 2))
                            then take 12000 (normalizeTranscript (word_segments 2)) @ js '' ...''
                            else normalizeTranscript (word_segments 2))"
    by blast
  then obtain p1 e1 where 1: "generate_handler (?sys (word_segments 2)) example_body = (Json p1, e1)"
    "p_truncated p1 = (12000 < length (normalizeTranscript (word_segments 2)))"
    "p_transcript p1 = (if 12000 < length (normalizeTranscript (word_segments 2))
                            then take 12000 (normalizeTranscript (word_segments 2)) @ js '' ...''
                            else normalizeTranscript (word_segments 2))"
    by blast
  from generate_transcript_truncation [of "?sys (letter_segments 6001)" example_body _ _
      "js ''https://youtu.be/abc123xy''" "js ''abc123xy''" "letter_segments 6001"
      "js ''casual tone''" "js ''300-450 words''"]
    pre [of "letter_segments 6001"] style [of "letter_segments 6001"] ne(2)
  have "\<exists>p' evs'. generate_handler (?sys (letter_segments 6001)) example_body = (Json p', evs') \<and>
         p_truncated p' = (12000 < length (normalizeTranscript (letter_segments 6001)))"
    by blast
  then obtain p2 e2 where 2: "generate_handler (?sys (letter_segments 6001)) example_body = (Json p2, e2)"
    "p_truncated p2 = (12000 < length (normalizeTranscript (letter_segments 6001)))"
    by blast
  from generate_transcript_truncation [of "?sys (letter_segments 6001)" example_body p2 e2]
    2(1)
  have "p_truncated p2 \<longrightarrow> length (p_transcript p2) = 12004" by blast
  with l 2(2) have 3: "length (p_transcript p2) = 12004" by simp
  from generate_transcript_truncation [of "?sys []" example_body _ _
      "js ''https://youtu.be/abc123xy''" "js ''abc123xy''"] pre [of "[]"]
  have 4: "fst (generate_handler (?sys []) example_body) =
     ErrorStatus 404 (js ''No transcript found for this video.'')"
    by blast
  from 1 2 3 4 w wl l show ?thesis by simp
qed

theorem truncation_by_separators_counterexample:
  "total_text_length (letter_segments 6001) = 6001 \<and>
   map_option p_truncated (response_payload (fst (generate_handler
       (plain_platform env_without_key (fetch_const (letter_segments 6001)) failing_client)
       example_body))) = Some True \<and>
   length (normalizeTranscript (letter_segments 6001)) = 12001"
proof -
  let ?sys = "plain_platform env_without_key (fetch_const (letter_segments 6001)) failing_client"
  have sys: "url_parse ?sys = plain_url_parse" "to_lower_case ?sys = ascii_lower"
    "fetchTranscript ?sys vid = Inr (Some (letter_segments 6001))" for vid
    by (simp_all add: plain_platform_def fetch_const_def)
  have ne: "letter_segments 6001 \<noteq> []" by (simp add: letter_segments_def)
  have l: "length (normalizeTranscript (letter_segments 6001)) = 12001"
    using normalizeTranscript_letters_length [of 6000] by simp
  have "\<exists>(r :: generation_result) evs. generate_handler ?sys example_body =
     (Json \<lparr>p_videoId = js ''abc123xy'',
            p_transcript = (if 12000 < length (normalizeTranscript (letter_segments 6001))
                            then take 12000 (normalizeTranscript (letter_segments 6001)) @ js '' ...''
                            else normalizeTranscript (letter_segments 6001)),
            p_truncated = (12000 < length (normalizeTranscript (letter_segments 6001))),
            p_article = gr_text r, p_mode = gr_mode r\<rparr>, evs)"
    by (rule generate_handler_success [of example_body "js ''https://youtu.be/abc123xy''" ?sys
          "js ''abc123xy''" "letter_segments 6001" "js ''casual tone''" "js ''300-450 words''"])
      (simp_all only: example_body_facts sys ne not_False_eq_True)
  then have "map_option p_truncated (response_payload (fst (generate_handler ?sys example_body)))
      = Some True"
    using l by auto
  with l show ?thesis by (simp add: total_text_length_letters)
qed

end
